theory Spec2Isabelle
  imports Main "HOL-Library.Sublist"
begin

section \<open>Strings as the Python code uses them\<close>

text \<open>
  Python strings are modelled as \<^typ>\<open>string\<close>, restricted to ASCII: a character
  outside ASCII is treated as a symbol without case that is not white space.
  \<open>ascii_whitespace\<close> is what \<open>str.isspace\<close>, \<open>str.strip()\<close> and the regular
  expression class \<open>\s\<close> accept in that range: tab, line feed, vertical tab, form
  feed, carriage return, the four separators 0x1C..0x1F and the blank.
\<close>

definition ascii_whitespace :: "char list" where
  "ascii_whitespace =
     [CHR 0x09, CHR 0x0A, CHR 0x0B, CHR 0x0C, CHR 0x0D,
      CHR 0x1C, CHR 0x1D, CHR 0x1E, CHR 0x1F, CHR '' '']"

definition is_space :: "char \<Rightarrow> bool" where
  "is_space c = (c \<in> set ascii_whitespace)"

definition ascii_upper :: "char list" where
  "ascii_upper = ''ABCDEFGHIJKLMNOPQRSTUVWXYZ''"

definition ascii_lower :: "char list" where
  "ascii_lower = ''abcdefghijklmnopqrstuvwxyz''"

definition ascii_digits :: "char list" where
  "ascii_digits = ''0123456789''"

definition lower_char :: "char \<Rightarrow> char" where
  "lower_char c = (case map_of (zip ascii_upper ascii_lower) c of Some d \<Rightarrow> d | None \<Rightarrow> c)"

definition upper_char :: "char \<Rightarrow> char" where
  "upper_char c = (case map_of (zip ascii_lower ascii_upper) c of Some d \<Rightarrow> d | None \<Rightarrow> c)"

text \<open>\<open>s.lower()\<close>, \<open>s.upper()\<close> and \<open>s.strip()\<close>.\<close>

definition lower :: "string \<Rightarrow> string" where
  "lower s = map lower_char s"

definition upper :: "string \<Rightarrow> string" where
  "upper s = map upper_char s"

definition strip :: "string \<Rightarrow> string" where
  "strip s = rev (dropWhile is_space (rev (dropWhile is_space s)))"

text \<open>\<open>needle in hay\<close> on two strings: \<open>needle\<close> occurs as a contiguous substring.\<close>

definition py_in :: "string \<Rightarrow> string \<Rightarrow> bool" where
  "py_in needle hay = sublist needle hay"

section \<open>The regular expressions of \<open>ai_agent.py\<close>\<close>

text \<open>
  The patterns given to \<open>re.sub\<close> use literals, character classes, sequence,
  alternation, \<open>?\<close>, and \<open>*\<close> / \<open>+\<close> over a single character class. \<open>matches r s\<close>
  lists the remainders of \<open>s\<close> after every way \<open>r\<close> matches a prefix of \<open>s\<close>, in the
  order a backtracking matcher tries them (greedy quantifiers, left alternative first):
  its head is the match \<open>re\<close> reports at that position.
\<close>

datatype regex =
    Eps
  | Chr char
  | Cls "char \<Rightarrow> bool"
  | Seq regex regex
  | Alt regex regex
  | Opt regex
  | Star "char \<Rightarrow> bool"

fun star_cls :: "(char \<Rightarrow> bool) \<Rightarrow> string \<Rightarrow> string list" where
  "star_cls p [] = [[]]"
| "star_cls p (c # cs) = (if p c then star_cls p cs @ [c # cs] else [c # cs])"

fun matches :: "regex \<Rightarrow> string \<Rightarrow> string list" where
  "matches Eps s = [s]"
| "matches (Chr a) s = (case s of [] \<Rightarrow> [] | c # cs \<Rightarrow> if c = a then [cs] else [])"
| "matches (Cls p) s = (case s of [] \<Rightarrow> [] | c # cs \<Rightarrow> if p c then [cs] else [])"
| "matches (Seq a b) s = concat (map (matches b) (matches a s))"
| "matches (Alt a b) s = matches a s @ matches b s"
| "matches (Opt a) s = matches a s @ [s]"
| "matches (Star p) s = star_cls p s"

definition re_match :: "regex \<Rightarrow> string \<Rightarrow> string option" where
  "re_match r s = (case matches r s of [] \<Rightarrow> None | rest # _ \<Rightarrow> Some rest)"

text \<open>A literal phrase, and \<open>c+\<close> over a class.\<close>

fun Lit :: "string \<Rightarrow> regex" where
  "Lit [] = Eps"
| "Lit (c # cs) = Seq (Chr c) (Lit cs)"

definition Plus :: "(char \<Rightarrow> bool) \<Rightarrow> regex" where
  "Plus p = Seq (Cls p) (Star p)"

text \<open>
  \<open>re.sub(pattern, repl, s)\<close> with a literal replacement: scanning from the left, the
  match at the current position is replaced and the scan goes on after it; where
  nothing matches, the character is copied. No pattern of this program matches the
  empty string (\<open>patterns_consuming\<close> below); at an empty match the model copies the
  character as well.
\<close>

function re_sub :: "regex \<Rightarrow> string \<Rightarrow> string \<Rightarrow> string" where
  "re_sub r rep [] = []"
| "re_sub r rep (c # cs) =
     (case re_match r (c # cs) of
        None \<Rightarrow> c # re_sub r rep cs
      | Some rest \<Rightarrow>
          if length rest < length (c # cs) then rep @ re_sub r rep rest
          else c # re_sub r rep cs)"
  by pat_completeness auto
termination
  by (relation "measure (\<lambda>(r, rep, s). length s)") auto

text \<open>
  A pattern is \<open>consuming\<close> when, by its shape, every match takes at least one
  character; for such a pattern the branch of \<open>re_sub\<close> for an empty match is never taken.
\<close>

fun consuming :: "regex \<Rightarrow> bool" where
  "consuming Eps = False"
| "consuming (Chr c) = True"
| "consuming (Cls p) = True"
| "consuming (Seq a b) = (consuming a \<or> consuming b)"
| "consuming (Alt a b) = (consuming a \<and> consuming b)"
| "consuming (Opt a) = False"
| "consuming (Star p) = False"

text \<open>
  A pattern that starts with \<open>^\<close> (no \<open>MULTILINE\<close> flag) can only match at the start of
  the string, so \<open>re.sub\<close> replaces at most that one match.
\<close>

definition re_sub_bol :: "regex \<Rightarrow> string \<Rightarrow> string \<Rightarrow> string" where
  "re_sub_bol r rep s = (case re_match r s of None \<Rightarrow> s | Some rest \<Rightarrow> rep @ rest)"

section \<open>\<open>normalize_issue_key\<close>\<close>

definition not_newline :: "char \<Rightarrow> bool" where
  "not_newline c = (c \<noteq> CHR 0x0A)"

definition not_key_char :: "char \<Rightarrow> bool" where
  "not_key_char c = (c \<notin> set ascii_lower \<and> c \<notin> set ascii_digits \<and> \<not> is_space c)"

text \<open>\<open>^(missing required clause|red flag)\s*:\s*\<close>\<close>

definition prefix_pattern :: regex where
  "prefix_pattern =
     Seq (Alt (Lit ''missing required clause'') (Lit ''red flag''))
       (Seq (Star is_space) (Seq (Chr CHR '':'') (Star is_space)))"

definition replacements :: "(regex \<times> string) list" where
  "replacements =
     [(Lit ''abu dhabi global market'', ''adgm''),
      (Seq (Chr CHR ''u'') (Seq (Opt (Chr CHR ''.'')) (Seq (Chr CHR ''a'') (Seq (Opt (Chr CHR ''.''))
         (Seq (Chr CHR ''e'') (Seq (Opt (Chr CHR ''.'')) (Seq (Star is_space) (Lit ''federal court''))))))),
       ''uae federal court''),
      (Lit ''registered address'', ''registered address''),
      (Seq (Lit ''signatorie'') (Opt (Chr CHR ''s'')), ''signatories''),
      (Lit ''jurisdiction'', ''jurisdiction''),
      (Alt (Seq (Lit ''ambiguous'') (Seq (Star not_newline) (Lit ''language''))) (Lit ''non-binding''),
       ''ambiguity''),
      (Lit ''appears to be missing signatory section'', ''signatories'')]"

definition apply_replacements :: "string \<Rightarrow> string" where
  "apply_replacements t = foldl (\<lambda>t (pat, rep). re_sub pat rep t) t replacements"

definition cleanup :: "string \<Rightarrow> string" where
  "cleanup t = strip (re_sub (Plus is_space) '' '' (re_sub (Cls not_key_char) '' '' t))"

definition normalize_issue_key :: "string \<Rightarrow> string" where
  "normalize_issue_key text =
     (let t = strip (lower text);
          t = re_sub_bol prefix_pattern [] t;
          t = apply_replacements t
      in cleanup t)"

section \<open>\<open>doc_type_accepts_issue_key\<close>\<close>

definition COMMON :: "string set" where
  "COMMON = {''jurisdiction'', ''adgm'', ''ambiguity'', ''signatories''}"

definition AOA_KEYS :: "string set" where
  "AOA_KEYS = COMMON \<union> {''company name'', ''objects'', ''share capital'', ''directors'', ''dividends''}"

definition MOA_KEYS :: "string set" where
  "MOA_KEYS = COMMON \<union> {''registered address'', ''objects'', ''share capital''}"

definition RES_KEYS :: "string set" where
  "RES_KEYS = COMMON \<union> {''resolution approval'', ''authorized representative''}"

definition REG_KEYS :: "string set" where
  "REG_KEYS = COMMON \<union> {''register'', ''members'', ''directors''}"

definition UBO_KEYS :: "string set" where
  "UBO_KEYS = COMMON \<union> {''ubo'', ''beneficial owner'', ''declaration''}"

definition allow_list :: "string \<Rightarrow> string set" where
  "allow_list dt =
     (if py_in ''articles of association'' dt then AOA_KEYS
      else if py_in ''memorandum of association'' dt then MOA_KEYS
      else if py_in ''board resolution'' dt then RES_KEYS
      else if py_in ''register of members and directors'' dt then REG_KEYS
      else if py_in ''ubo'' dt then UBO_KEYS
      else COMMON)"

definition doc_type_accepts_issue_key :: "string \<Rightarrow> string \<Rightarrow> bool" where
  "doc_type_accepts_issue_key doc_type issue_key =
     (let dt = lower doc_type; k = lower issue_key
      in if k = [] then False else (\<exists>tok \<in> allow_list dt. py_in tok k))"

section \<open>Exceptions and list indexing\<close>

datatype py_error =
  IndexError | ValueError | TypeError | AttributeError | RuntimeError | RequestError | OSError

text \<open>\<open>xs[i]\<close>: a negative index counts from the end, an index out of range raises.\<close>

definition py_getitem :: "'a list \<Rightarrow> int \<Rightarrow> py_error + 'a" where
  "py_getitem xs i =
     (if 0 \<le> i \<and> i < int (length xs) then Inr (xs ! nat i)
      else if i < 0 \<and> - int (length xs) \<le> i then Inr (xs ! nat (int (length xs) + i))
      else Inl IndexError)"

section \<open>JSON values\<close>

text \<open>
  What \<open>json.load\<close> and \<open>json.loads\<close> return: \<open>None\<close>, a truth value, a number, a
  string, a list, or a dictionary, given as the list of its items with one item for
  each key. Nothing in the program checks which of these it received. Numbers are
  integers here; the program only tests a number for being zero.
\<close>

datatype json =
    JNull
  | JBool bool
  | JNum int
  | JStr string
  | JList "json list"
  | JDict "(string \<times> json) list"

text \<open>The truth value of \<open>v\<close> in \<open>if v\<close> and \<open>v or default\<close>.\<close>

fun truthy :: "json \<Rightarrow> bool" where
  "truthy JNull = False"
| "truthy (JBool b) = b"
| "truthy (JNum n) = (n \<noteq> 0)"
| "truthy (JStr s) = (s \<noteq> [])"
| "truthy (JList xs) = (xs \<noteq> [])"
| "truthy (JDict items) = (items \<noteq> [])"

text \<open>\<open>len(v)\<close>\<close>

fun py_len :: "json \<Rightarrow> py_error + nat" where
  "py_len (JStr s) = Inr (length s)"
| "py_len (JList xs) = Inr (length xs)"
| "py_len (JDict items) = Inr (length items)"
| "py_len v = Inl TypeError"

text \<open>
  \<open>for x in v\<close>: the elements of a list, the characters of a string, the keys of a
  dictionary; nothing else can be iterated.
\<close>

fun py_iter :: "json \<Rightarrow> py_error + json list" where
  "py_iter (JList xs) = Inr xs"
| "py_iter (JStr s) = Inr (map (\<lambda>c. JStr [c]) s)"
| "py_iter (JDict items) = Inr (map (\<lambda>item. JStr (fst item)) items)"
| "py_iter v = Inl TypeError"

text \<open>\<open>d.get(key)\<close> on the items of a dictionary, and the default of \<open>d.get(key, default)\<close>.\<close>

definition dict_get :: "(string \<times> json) list \<Rightarrow> string \<Rightarrow> json option" where
  "dict_get items key = map_of items key"

definition get_or :: "'a option \<Rightarrow> 'a \<Rightarrow> 'a" where
  "get_or v dflt = (case v of None \<Rightarrow> dflt | Some x \<Rightarrow> x)"

text \<open>\<open>v.get(key, default)\<close> on any value: only a dictionary has the method.\<close>

fun py_get :: "json \<Rightarrow> string \<Rightarrow> json \<Rightarrow> py_error + json" where
  "py_get (JDict items) key dflt = Inr (get_or (dict_get items key) dflt)"
| "py_get v key dflt = Inl AttributeError"

text \<open>
  \<open>(d.get(key) or "")\<close> followed by a string method (\<open>strip\<close>, \<open>split\<close>): an absent or
  false value gives the empty string, a string is kept, and any other value has no such
  method.
\<close>

fun str_or_empty :: "json option \<Rightarrow> py_error + string" where
  "str_or_empty None = Inr []"
| "str_or_empty (Some (JStr s)) = Inr s"
| "str_or_empty (Some v) = (if truthy v then Inl AttributeError else Inr [])"

text \<open>
  \<open>str(v)\<close>, and a field \<open>{v}\<close> of an f-string: a string is taken as it is; the text that
  Python prints for any other value is the parameter \<open>render\<close>.
\<close>

fun py_str :: "(json \<Rightarrow> string) \<Rightarrow> json \<Rightarrow> string" where
  "py_str render (JStr s) = s"
| "py_str render v = render v"

section \<open>\<open>adgm_analyzer.py\<close>\<close>

text \<open>
  \<open>doc_info\<close> is the dictionary built by \<open>extract_text_and_sections\<close>; \<open>full_text\<close> is
  read with \<open>doc_info.get("full_text") or ""\<close>, so an absent entry is \<open>None\<close> here.
\<close>

record doc_info =
  paragraphs :: "string list"
  headings :: "string list"
  full_text :: "string option"

definition full_text_or_empty :: "doc_info \<Rightarrow> string" where
  "full_text_or_empty d = (case full_text d of None \<Rightarrow> [] | Some t \<Rightarrow> t)"

text \<open>
  The rule set is the value that \<open>load_rules\<close> read from \<open>config/adgm_rules.json\<close>, as it
  is. The loop appends the trimmed text of each element that is not blank and does not
  occur in the text.
\<close>

fun clause_loop :: "(json \<Rightarrow> string) \<Rightarrow> string \<Rightarrow> json list \<Rightarrow> string list \<Rightarrow> string list" where
  "clause_loop render text [] missing = missing"
| "clause_loop render text (clause # rest) missing =
     (let key = strip (py_str render clause)
      in if key = [] then clause_loop render text rest missing
         else if \<not> py_in (lower key) text then clause_loop render text rest (missing @ [key])
         else clause_loop render text rest missing)"

text \<open>
  \<open>rules.get("clauses_per_doc", {})\<close> and \<open>clauses_per_doc.get(doc_type, []) or []\<close>: each
  \<open>get\<close> raises when its receiver is not a dictionary, and the loop raises when the
  entry cannot be iterated.
\<close>

definition check_required_clauses ::
  "(json \<Rightarrow> string) \<Rightarrow> doc_info \<Rightarrow> string \<Rightarrow> json \<Rightarrow> py_error + string list" where
  "check_required_clauses render d doc_type rules =
     (let text = lower (full_text_or_empty d)
      in case py_get rules ''clauses_per_doc'' (JDict []) of
           Inl e \<Rightarrow> Inl e
         | Inr clauses_per_doc \<Rightarrow>
             (case py_get clauses_per_doc doc_type (JList []) of
                Inl e \<Rightarrow> Inl e
              | Inr entry \<Rightarrow>
                  (let required_clauses = (if truthy entry then entry else JList [])
                   in case py_iter required_clauses of
                        Inl e \<Rightarrow> Inl e
                      | Inr clauses \<Rightarrow> Inr (clause_loop render text clauses []))))"

record red_flag =
  rf_issue :: string
  rf_severity :: string
  rf_match :: string

definition ambiguous_markers :: "string list" where
  "ambiguous_markers = [''may consider'', ''where possible'', ''as appropriate'', ''at its discretion'']"

text \<open>\<open>"; ".join(xs)\<close>\<close>

fun join :: "string \<Rightarrow> string list \<Rightarrow> string" where
  "join sep [] = []"
| "join sep [x] = x"
| "join sep (x # y # ys) = x @ sep @ join sep (y # ys)"

definition requires_signature :: "string set" where
  "requires_signature =
     {''Articles of Association'', ''Memorandum of Association'', ''Board Resolution'',
      ''Shareholder Resolution'', ''UBO Declaration Form'', ''Incorporation Application Form''}"

definition jurisdiction_flag :: red_flag where
  "jurisdiction_flag =
     \<lparr>rf_issue = ''References UAE Federal Court instead of ADGM'',
      rf_severity = ''High'', rf_match = ''UAE Federal Court''\<rparr>"

definition ambiguity_flag :: red_flag where
  "ambiguity_flag =
     \<lparr>rf_issue = ''Ambiguous or non-binding language'',
      rf_severity = ''Medium'', rf_match = join ''; '' ambiguous_markers\<rparr>"

definition signatory_flag :: red_flag where
  "signatory_flag =
     \<lparr>rf_issue = ''Appears to be missing signatory section'',
      rf_severity = ''High'', rf_match = ''signature''\<rparr>"

text \<open>\<open>doc_type\<close> is \<open>Optional[str]\<close> with default \<open>None\<close>, which is in no set of strings.\<close>

definition find_red_flags :: "doc_info \<Rightarrow> string option \<Rightarrow> red_flag list" where
  "find_red_flags d doc_type =
     (let text = lower (full_text_or_empty d);
          flags = [];
          flags = (if py_in ''uae federal court'' text then flags @ [jurisdiction_flag] else flags);
          flags = (if list_ex (\<lambda>m. py_in m text) ambiguous_markers
                   then flags @ [ambiguity_flag] else flags);
          flags = (if (case doc_type of None \<Rightarrow> False | Some t \<Rightarrow> t \<in> requires_signature)
                      \<and> (\<not> py_in ''sign'' text \<and> \<not> py_in ''signature'' text)
                   then flags @ [signatory_flag] else flags)
      in flags)"

text \<open>
  A finding is the dictionary of \<open>build_issue_report\<close>; the three advisory keys are
  absent (\<open>None\<close>) until an AI suggestion sets them, to whatever values it holds.
\<close>

record finding =
  document :: string
  section_name :: string
  issue :: string
  severity :: string
  suggestion :: string
  suggestion_ai :: "json option"
  rationale_ai :: "json option"
  citation_label :: "json option"

definition clause_finding :: "string \<Rightarrow> string \<Rightarrow> finding" where
  "clause_finding doc_type clause =
     \<lparr>document = doc_type, section_name = ''N/A'',
      issue = ''Missing required clause: '' @ clause, severity = ''High'',
      suggestion = ''Add clause referencing '' @ [CHR 0x27] @ clause @ [CHR 0x27] @ ''.'',
      suggestion_ai = None, rationale_ai = None, citation_label = None\<rparr>"

definition red_flag_finding :: "string \<Rightarrow> red_flag \<Rightarrow> finding" where
  "red_flag_finding doc_type rf =
     \<lparr>document = doc_type, section_name = ''N/A'',
      issue = rf_issue rf, severity = rf_severity rf,
      suggestion = ''Align with ADGM wording where applicable.'',
      suggestion_ai = None, rationale_ai = None, citation_label = None\<rparr>"

definition build_issue_report :: "string \<Rightarrow> string \<Rightarrow> string list \<Rightarrow> red_flag list \<Rightarrow> finding list" where
  "build_issue_report file_name doc_type missing_clauses red_flags =
     map (clause_finding doc_type) missing_clauses @ map (red_flag_finding doc_type) red_flags"

section \<open>\<open>document_processor.py\<close>\<close>

fun paragraph_loop :: "string \<Rightarrow> int \<Rightarrow> string list \<Rightarrow> int list \<Rightarrow> int list" where
  "paragraph_loop snippet i [] idxs = idxs"
| "paragraph_loop snippet i (p # ps) idxs =
     (if py_in snippet (lower p) then paragraph_loop snippet (i + 1) ps (idxs @ [i])
      else paragraph_loop snippet (i + 1) ps idxs)"

definition find_paragraph_indexes :: "string \<Rightarrow> string list \<Rightarrow> int list" where
  "find_paragraph_indexes text_snippet ps =
     (if text_snippet = [] then []
      else paragraph_loop (lower text_snippet) 0 ps [])"

text \<open>
  The \<open>python-docx\<close> document, as far as \<open>annotate_paragraph\<close> touches it: a list of
  paragraphs, each a list of runs with a text, a bold flag and a highlight colour.
\<close>

datatype wd_color = RED | YELLOW

record run =
  run_text :: string
  run_bold :: "bool option"
  run_highlight :: "wd_color option"

type_synonym docx = "run list list"

text \<open>
  \<open>para.add_run(text)\<close> belongs to \<open>python-docx\<close>. It first appends a new, empty run to
  the paragraph and then writes the text into it piece by piece: the text is cut at
  every tab, line feed and carriage return, and each piece is stored as XML text, which
  raises \<open>ValueError\<close> for a piece with a control character other than these three.
  The run and the pieces written before stay in the paragraph. \<open>add_run\<close> gives the
  run that was appended and the exception, if one was raised.
\<close>

definition xml_compatible :: "char \<Rightarrow> bool" where
  "xml_compatible c = (c \<in> {CHR 0x09, CHR 0x0A, CHR 0x0D} \<or> 32 \<le> (of_char c :: nat))"

definition separator :: "char \<Rightarrow> bool" where
  "separator c = (c \<in> {CHR 0x09, CHR 0x0A, CHR 0x0D})"

text \<open>
  \<open>write_text written piece rest\<close>: the text written so far, the piece being collected,
  and the characters still to come; the result is the text of the run and the exception,
  if one was raised.
\<close>

fun write_text :: "string \<Rightarrow> string \<Rightarrow> string \<Rightarrow> string \<times> py_error option" where
  "write_text written piece [] =
     (if list_all xml_compatible piece then (written @ piece, None)
      else (written, Some ValueError))"
| "write_text written piece (c # cs) =
     (if separator c
      then (if list_all xml_compatible piece then write_text (written @ piece @ [c]) [] cs
            else (written, Some ValueError))
      else write_text written (piece @ [c]) cs)"

definition add_run :: "string \<Rightarrow> run \<times> py_error option" where
  "add_run text =
     (case write_text [] [] text of
        (written, err) \<Rightarrow> (\<lparr>run_text = written, run_bold = None, run_highlight = None\<rparr>, err))"

text \<open>The text of the run: \<open>f" [COMMENT: {comment_text}]"\<close>.\<close>

definition comment_marker :: "string \<Rightarrow> string" where
  "comment_marker comment_text = '' [COMMENT: '' @ comment_text @ '']''"

text \<open>
  The run of a completed annotation, after \<open>run.bold = True\<close> and the assignment of the
  highlight colour.
\<close>

definition comment_run :: "string \<Rightarrow> string \<Rightarrow> run" where
  "comment_run comment_text highlight =
     (let color = upper (strip (if highlight = [] then ''YELLOW'' else highlight))
      in \<lparr>run_text = comment_marker comment_text,
          run_bold = Some True,
          run_highlight = Some (if color = ''RED'' then RED else YELLOW)\<rparr>)"

text \<open>
  The body of the \<open>try\<close> block. The document is changed in place, so the result is its
  state together with the exception that ended the block, if one did:
  \<open>doc.paragraphs[para_index]\<close> raises for a document without paragraphs, and \<open>add_run\<close>
  raises after it has appended the run.
\<close>

definition annotate_try :: "docx \<Rightarrow> int \<Rightarrow> string \<Rightarrow> string \<Rightarrow> docx \<times> py_error option" where
  "annotate_try doc para_index comment_text highlight =
     (let n = int (length doc);
          para_index = (if para_index < 0 \<or> para_index \<ge> n then max 0 (n - 1) else para_index)
      in case py_getitem doc para_index of
           Inl e \<Rightarrow> (doc, Some e)
         | Inr para \<Rightarrow>
             (case add_run (comment_marker comment_text) of
                (r, Some e) \<Rightarrow> (doc[nat para_index := para @ [r]], Some e)
              | (r, None) \<Rightarrow>
                  (let color = upper (strip (if highlight = [] then ''YELLOW'' else highlight));
                       r = r\<lparr>run_bold := Some True,
                             run_highlight := Some (if color = ''RED'' then RED else YELLOW)\<rparr>
                   in (doc[nat para_index := para @ [r]], None))))"

text \<open>\<open>except Exception\<close> prints and returns; the document keeps the state it is in.\<close>

definition annotate_paragraph :: "docx \<Rightarrow> int \<Rightarrow> string \<Rightarrow> string \<Rightarrow> docx" where
  "annotate_paragraph doc para_index comment_text highlight =
     fst (annotate_try doc para_index comment_text highlight)"

section \<open>\<open>ai_agent.py\<close>: suggestions and their parsing\<close>

text \<open>\<open>text.find(c)\<close> and \<open>text.rfind(c)\<close> for a single character: an index or \<open>-1\<close>.\<close>

fun find_from :: "char \<Rightarrow> int \<Rightarrow> string \<Rightarrow> int" where
  "find_from c i [] = - 1"
| "find_from c i (x # xs) = (if x = c then i else find_from c (i + 1) xs)"

definition py_find :: "string \<Rightarrow> char \<Rightarrow> int" where
  "py_find text c = find_from c 0 text"

definition py_rfind :: "string \<Rightarrow> char \<Rightarrow> int" where
  "py_rfind text c =
     (let i = find_from c 0 (rev text) in if i = - 1 then - 1 else int (length text) - 1 - i)"

text \<open>\<open>text[a:b]\<close> for \<open>0 \<le> a\<close> and \<open>0 \<le> b\<close>.\<close>

definition slice :: "string \<Rightarrow> int \<Rightarrow> int \<Rightarrow> string" where
  "slice text a b = take (nat (b - a)) (drop (nat a) text)"

text \<open>
  \<open>json.loads\<close> belongs to the standard library and is a parameter \<open>loads\<close>: it returns
  the value it parsed, of any kind, or raises. \<open>parse_try\<close> is the body of the \<open>try\<close>
  block; what it returns is returned as it is.
\<close>

definition parse_try :: "(string \<Rightarrow> py_error + json) \<Rightarrow> string \<Rightarrow> py_error + json" where
  "parse_try loads text =
     (let start = py_find text CHR ''['';
          end_idx = py_rfind text CHR '']''
      in if start \<noteq> - 1 \<and> end_idx \<noteq> - 1 \<and> end_idx > start
         then loads (slice text start (end_idx + 1))
         else loads text)"

definition parse_ai_response_to_list :: "(string \<Rightarrow> py_error + json) \<Rightarrow> string \<Rightarrow> json" where
  "parse_ai_response_to_list loads text =
     (case parse_try loads text of Inl e \<Rightarrow> JList [] | Inr parsed \<Rightarrow> parsed)"

text \<open>\<open>"citation_label" not in s\<close>, which raises for a value that is no container.\<close>

fun lacks_label :: "json \<Rightarrow> py_error + bool" where
  "lacks_label (JDict items) = Inr (dict_get items ''citation_label'' = None)"
| "lacks_label (JStr s) = Inr (\<not> py_in ''citation_label'' s)"
| "lacks_label (JList xs) = Inr (JStr ''citation_label'' \<notin> set xs)"
| "lacks_label v = Inl TypeError"

text \<open>\<open>any("citation_label" not in s for s in suggestions)\<close>, which stops at the first hit.\<close>

fun any_lacks_label :: "json list \<Rightarrow> py_error + bool" where
  "any_lacks_label [] = Inr False"
| "any_lacks_label (s # rest) =
     (case lacks_label s of
        Inl e \<Rightarrow> Inl e
      | Inr True \<Rightarrow> Inr True
      | Inr False \<Rightarrow> any_lacks_label rest)"

text \<open>
  \<open>for s in suggestions: s.setdefault("citation_label", default_label)\<close>: only a
  dictionary has the method.
\<close>

fun set_default_labels :: "string \<Rightarrow> json list \<Rightarrow> py_error + json list" where
  "set_default_labels default_label [] = Inr []"
| "set_default_labels default_label (JDict items # rest) =
     (case set_default_labels default_label rest of
        Inl e \<Rightarrow> Inl e
      | Inr rest' \<Rightarrow>
          Inr (JDict (if dict_get items ''citation_label'' = None
                      then items @ [(''citation_label'', JStr default_label)] else items) # rest'))"
| "set_default_labels default_label (v # rest) = Inl AttributeError"

text \<open>
  \<open>generate_ai_suggestions_for_file\<close>. Reading the reference file, ranking it and
  formatting the prompt are not modelled: \<open>prepared\<close> is their outcome, the labels of
  \<open>top_refs\<close> with the prompt, or the exception they raised. \<open>chat\<close> is the network call
  \<open>call_groq_compatible_chat\<close>, which raises on a missing key, a timeout or a non-2xx
  status. The debug line prints \<open>len(suggestions)\<close>.
\<close>

definition generate_ai_suggestions_for_file ::
  "(py_error + string list \<times> string) \<Rightarrow> (string \<Rightarrow> py_error + string) \<Rightarrow>
   (string \<Rightarrow> py_error + json) \<Rightarrow> py_error + json" where
  "generate_ai_suggestions_for_file prepared chat loads =
     (case prepared of
        Inl e \<Rightarrow> Inl e
      | Inr (top_ref_labels, prompt) \<Rightarrow>
          (case chat prompt of
             Inl e \<Rightarrow> Inl e
           | Inr raw \<Rightarrow>
               (let suggestions = parse_ai_response_to_list loads raw
                in case py_len suggestions of
                     Inl e \<Rightarrow> Inl e
                   | Inr n \<Rightarrow>
                       (case top_ref_labels of
                          [] \<Rightarrow> Inr suggestions
                        | default_label # _ \<Rightarrow>
                            if \<not> truthy suggestions then Inr suggestions
                            else (case py_iter suggestions of
                                    Inl e \<Rightarrow> Inl e
                                  | Inr elems \<Rightarrow>
                                      (case any_lacks_label elems of
                                         Inl e \<Rightarrow> Inl e
                                       | Inr False \<Rightarrow> Inr suggestions
                                       | Inr True \<Rightarrow>
                                           (case set_default_labels default_label elems of
                                              Inl e \<Rightarrow> Inl e
                                            | Inr elems' \<Rightarrow>
                                                Inr (case suggestions of
                                                       JList xs \<Rightarrow> JList elems'
                                                     | v \<Rightarrow> v))))))))"

section \<open>\<open>main.py\<close>: per-document processing in \<open>analyze_files\<close>\<close>

text \<open>
  Step 6, the call site. Inside the \<open>try\<close> block the result of the call is assigned and
  the debug lines evaluate \<open>len(ai_suggestions)\<close> and \<open>ai_suggestions[:2]\<close>; any exception
  leaves the empty list. A dictionary cannot be sliced.
\<close>

fun first_two :: "json \<Rightarrow> py_error + json" where
  "first_two (JList xs) = Inr (JList (take 2 xs))"
| "first_two (JStr s) = Inr (JStr (take 2 s))"
| "first_two v = Inl TypeError"

definition fetch_ai_suggestions :: "bool \<Rightarrow> (py_error + json) \<Rightarrow> json" where
  "fetch_ai_suggestions ai_active outcome =
     (if ai_active
      then (case outcome of
              Inl e \<Rightarrow> JList []
            | Inr ai_suggestions \<Rightarrow>
                (case py_len ai_suggestions of
                   Inl e \<Rightarrow> JList []
                 | Inr n \<Rightarrow>
                     (case first_two ai_suggestions of
                        Inl e \<Rightarrow> JList []
                      | Inr sample \<Rightarrow> ai_suggestions)))
      else JList [])"

text \<open>The three assignments of a match; \<open>sug\<close> is the dictionary of the suggestion.\<close>

definition enrich :: "finding \<Rightarrow> (string \<times> json) list \<Rightarrow> finding" where
  "enrich f sug =
     f\<lparr>suggestion_ai := Some (get_or (dict_get sug ''suggestion'') (JStr [])),
       rationale_ai := Some (get_or (dict_get sug ''rationale'') (JStr [])),
       citation_label := Some (get_or (dict_get sug ''citation_label'') (JStr []))\<rparr>"

definition keys_match :: "string \<Rightarrow> string \<Rightarrow> bool" where
  "keys_match sug_key issue_key =
     (sug_key \<noteq> [] \<and> issue_key \<noteq> [] \<and> (py_in sug_key issue_key \<or> py_in issue_key sug_key))"

text \<open>
  The inner loop over \<open>enumerate(file_issues)\<close>: it reads \<open>issue_keys_current[idx]\<close>,
  which raises when the list of keys is shorter than \<open>file_issues\<close>. The result is the
  list after the loop with the flag \<open>matched\<close>.
\<close>

fun match_loop ::
  "string list \<Rightarrow> string \<Rightarrow> (string \<times> json) list \<Rightarrow> int \<Rightarrow> finding list \<Rightarrow>
   py_error + finding list \<times> bool" where
  "match_loop issue_keys_current sug_key sug idx [] = Inr ([], False)"
| "match_loop issue_keys_current sug_key sug idx (f # rest) =
     (case py_getitem issue_keys_current idx of
        Inl e \<Rightarrow> Inl e
      | Inr issue_key \<Rightarrow>
          if keys_match sug_key issue_key then Inr (enrich f sug # rest, True)
          else (case match_loop issue_keys_current sug_key sug (idx + 1) rest of
                  Inl e \<Rightarrow> Inl e
                | Inr (rest', matched) \<Rightarrow> Inr (f # rest', matched)))"

definition standalone_finding :: "string \<Rightarrow> string \<Rightarrow> (string \<times> json) list \<Rightarrow> finding" where
  "standalone_finding doc_type sug_issue_raw sug =
     \<lparr>document = doc_type, section_name = ''N/A'',
      issue = (if sug_issue_raw = [] then ''AI-suggested improvement'' else sug_issue_raw),
      severity = ''Medium'', suggestion = [],
      suggestion_ai = Some (get_or (dict_get sug ''suggestion'') (JStr [])),
      rationale_ai = Some (get_or (dict_get sug ''rationale'') (JStr [])),
      citation_label = Some (get_or (dict_get sug ''citation_label'') (JStr []))\<rparr>"

text \<open>
  The body of \<open>for sug in ai_suggestions\<close> (lines 158 to 189). \<open>sug.get\<close> raises when
  the element is not a dictionary, and \<open>.strip()\<close> raises when its issue is neither a
  string nor false.
\<close>

fun merge_suggestion ::
  "string \<Rightarrow> string list \<Rightarrow> finding list \<Rightarrow> json \<Rightarrow> py_error + finding list" where
  "merge_suggestion doc_type issue_keys_current file_issues (JDict sug) =
     (case str_or_empty (dict_get sug ''issue'') of
        Inl e \<Rightarrow> Inl e
      | Inr raw \<Rightarrow>
          (let sug_issue_raw = strip raw;
               sug_key = normalize_issue_key sug_issue_raw
           in if \<not> doc_type_accepts_issue_key doc_type sug_key then Inr file_issues
              else (case match_loop issue_keys_current sug_key sug 0 file_issues of
                      Inl e \<Rightarrow> Inl e
                    | Inr (file_issues', matched) \<Rightarrow>
                        if matched then Inr file_issues'
                        else Inr (file_issues' @ [standalone_finding doc_type sug_issue_raw sug]))))"
| "merge_suggestion doc_type issue_keys_current file_issues v = Inl AttributeError"

text \<open>
  \<open>file_issues\<close> is changed in place, so the loop over the suggestions returns its state
  together with the exception that ended the loop, if one did.
\<close>

fun merge_loop ::
  "string \<Rightarrow> string list \<Rightarrow> finding list \<Rightarrow> json list \<Rightarrow> finding list \<times> py_error option" where
  "merge_loop doc_type issue_keys_current file_issues [] = (file_issues, None)"
| "merge_loop doc_type issue_keys_current file_issues (sug # rest) =
     (case merge_suggestion doc_type issue_keys_current file_issues sug of
        Inl e \<Rightarrow> (file_issues, Some e)
      | Inr file_issues' \<Rightarrow> merge_loop doc_type issue_keys_current file_issues' rest)"

text \<open>\<open>if ai_suggestions:\<close> and the loop over whatever the value holds.\<close>

definition merge_ai_suggestions ::
  "string \<Rightarrow> finding list \<Rightarrow> json \<Rightarrow> finding list \<times> py_error option" where
  "merge_ai_suggestions doc_type file_issues ai_suggestions =
     (if \<not> truthy ai_suggestions then (file_issues, None)
      else (case py_iter ai_suggestions of
              Inl e \<Rightarrow> (file_issues, Some e)
            | Inr elems \<Rightarrow>
                merge_loop doc_type (map (\<lambda>i. normalize_issue_key (issue i)) file_issues)
                  file_issues elems))"

subsection \<open>Step 7: annotation\<close>

text \<open>
  The state of the annotation step: the document being annotated, the set
  \<open>seen_comments\<close>, and the calls of \<open>annotate_paragraph\<close> made so far, in order (index,
  comment, highlight).
\<close>

record annotation_state =
  reviewed :: docx
  seen_comments :: "(int \<times> string) set"
  calls :: "(int \<times> string \<times> string) list"

text \<open>\<open>hit_idxs[0] if hit_idxs else max(0, len(paragraphs) - 1)\<close>\<close>

definition target_index :: "int list \<Rightarrow> string list \<Rightarrow> int" where
  "target_index hit_idxs ps =
     (case hit_idxs of [] \<Rightarrow> max 0 (int (length ps) - 1) | i # _ \<Rightarrow> i)"

text \<open>
  The guard each of the three loops ends with: annotate and record the key unless the
  key \<open>(target, comment.lower().strip())\<close> was seen.
\<close>

definition annotate_once :: "annotation_state \<Rightarrow> int \<Rightarrow> string \<Rightarrow> string \<Rightarrow> annotation_state" where
  "annotate_once st target comment_text highlight =
     (let key = (target, strip (lower comment_text))
      in if key \<notin> seen_comments st
         then st\<lparr>reviewed := annotate_paragraph (reviewed st) target comment_text highlight,
                 seen_comments := insert key (seen_comments st),
                 calls := calls st @ [(target, comment_text, highlight)]\<rparr>
         else st)"

definition annotate_clause :: "string list \<Rightarrow> annotation_state \<Rightarrow> string \<Rightarrow> annotation_state" where
  "annotate_clause ps st clause =
     (let hit_idxs = find_paragraph_indexes clause ps;
          target_idx = target_index hit_idxs ps;
          comment_text = ''Missing required clause: '' @ clause
      in annotate_once st target_idx comment_text ''YELLOW'')"

definition annotate_red_flag :: "string list \<Rightarrow> annotation_state \<Rightarrow> red_flag \<Rightarrow> annotation_state" where
  "annotate_red_flag ps st rf =
     (let match = rf_match rf;
          hit_idxs = (if match \<noteq> [] then find_paragraph_indexes match ps else []);
          target_idx = target_index hit_idxs ps;
          comment_text = ''Red flag: '' @ rf_issue rf
      in annotate_once st target_idx comment_text ''RED'')"

text \<open>
  The body of the third loop. Here too \<open>sug.get\<close> raises for an element that is not a
  dictionary and \<open>.split\<close> for an issue that is neither a string nor false; the
  suggestion and the label are formatted into the comment whatever they are.
\<close>

fun annotate_suggestion ::
  "(json \<Rightarrow> string) \<Rightarrow> string list \<Rightarrow> annotation_state \<Rightarrow> json \<Rightarrow> py_error + annotation_state" where
  "annotate_suggestion render ps st (JDict sug) =
     (case str_or_empty (dict_get sug ''issue'') of
        Inl e \<Rightarrow> Inl e
      | Inr raw_issue \<Rightarrow>
          (let key_phrase = strip (takeWhile (\<lambda>c. c \<noteq> CHR '':'') raw_issue);
               idxs = (if key_phrase \<noteq> [] then find_paragraph_indexes key_phrase ps else []);
               tgt = target_index idxs ps;
               tag = get_or (dict_get sug ''citation_label'') (JStr ''ADGM Reference'');
               comment = ''AI Suggestion: '' @ py_str render (get_or (dict_get sug ''suggestion'') (JStr []));
               comment = (if truthy tag then comment @ '' | Source: '' @ py_str render tag else comment)
           in Inr (annotate_once st tgt comment ''YELLOW'')))"
| "annotate_suggestion render ps st v = Inl AttributeError"

fun annotate_suggestions ::
  "(json \<Rightarrow> string) \<Rightarrow> string list \<Rightarrow> annotation_state \<Rightarrow> json list \<Rightarrow>
   annotation_state \<times> py_error option" where
  "annotate_suggestions render ps st [] = (st, None)"
| "annotate_suggestions render ps st (sug # rest) =
     (case annotate_suggestion render ps st sug of
        Inl e \<Rightarrow> (st, Some e)
      | Inr st' \<Rightarrow> annotate_suggestions render ps st' rest)"

text \<open>
  The whole of step 7 for one document, which starts from an empty set of seen
  comments: the state reached, and the exception that ended the step, if one did.
\<close>

definition annotate_document ::
  "(json \<Rightarrow> string) \<Rightarrow> docx \<Rightarrow> string list \<Rightarrow> string list \<Rightarrow> red_flag list \<Rightarrow> json \<Rightarrow>
   annotation_state \<times> py_error option" where
  "annotate_document render doc ps missing_clauses red_flags ai_suggestions =
     (let st = \<lparr>reviewed = doc, seen_comments = {}, calls = []\<rparr>;
          st = foldl (annotate_clause ps) st missing_clauses;
          st = foldl (annotate_red_flag ps) st red_flags
      in if \<not> truthy ai_suggestions then (st, None)
         else (case py_iter ai_suggestions of
                 Inl e \<Rightarrow> (st, Some e)
               | Inr elems \<Rightarrow> annotate_suggestions render ps st elems))"

text \<open>
  One iteration of \<open>for file_path in file_paths\<close>, from the rules (step 4) to the
  annotation (step 7): the findings reported for the file and the annotated document,
  or the exception that leaves \<open>analyze_files\<close>. \<open>find_red_flags\<close> takes the document
  type, so the fallback call under \<open>except TypeError\<close> is never taken. \<open>doc\<close> is the
  document opened again for annotation; \<open>paragraphs d\<close> are the non-empty paragraphs
  that were extracted. Only the suggestion call stands in a \<open>try\<close> block.
\<close>

definition analyze_document ::
  "(json \<Rightarrow> string) \<Rightarrow> json \<Rightarrow> string \<Rightarrow> string \<Rightarrow> doc_info \<Rightarrow> docx \<Rightarrow> bool \<Rightarrow>
   (py_error + json) \<Rightarrow> py_error + finding list \<times> annotation_state" where
  "analyze_document render rules file_name doc_type d doc ai_active outcome =
     (case check_required_clauses render d doc_type rules of
        Inl e \<Rightarrow> Inl e
      | Inr missing_clauses \<Rightarrow>
          (let red_flags = find_red_flags d (Some doc_type);
               file_issues = build_issue_report file_name doc_type missing_clauses red_flags;
               ai_suggestions = fetch_ai_suggestions ai_active outcome
           in case merge_ai_suggestions doc_type file_issues ai_suggestions of
                (file_issues', Some e) \<Rightarrow> Inl e
              | (file_issues', None) \<Rightarrow>
                  (case annotate_document render doc (paragraphs d) missing_clauses red_flags
                          ai_suggestions of
                     (st, Some e) \<Rightarrow> Inl e
                   | (st, None) \<Rightarrow> Inr (file_issues', st))))"

section \<open>Notions used to state the properties\<close>

text \<open>The missing-signatory red flag is recognised by its issue text.\<close>

definition is_signatory_flag :: "red_flag \<Rightarrow> bool" where
  "is_signatory_flag rf = (rf_issue rf = ''Appears to be missing signatory section'')"

text \<open>
  The missing clauses as the specification words them: the keywords of the rule set,
  as they stand, whose lowercased form is not a substring of the lowercased text.
\<close>

definition specified_missing_clauses :: "string \<Rightarrow> string list \<Rightarrow> string list" where
  "specified_missing_clauses text clauses = filter (\<lambda>k. \<not> py_in (lower k) (lower text)) clauses"

text \<open>
  The relation the specification matches keys with: either key contains the other.
\<close>

definition symmetric_substring :: "string \<Rightarrow> string \<Rightarrow> bool" where
  "symmetric_substring a b = (py_in a b \<or> py_in b a)"

text \<open>The fields of a finding that the rule engine wrote.\<close>

definition rule_fields :: "finding \<Rightarrow> string \<times> string \<times> string \<times> string \<times> string" where
  "rule_fields f = (document f, section_name f, issue f, severity f, suggestion f)"

text \<open>The deduplication key of a call of \<open>annotate_paragraph\<close>.\<close>

definition call_key :: "int \<times> string \<times> string \<Rightarrow> int \<times> string" where
  "call_key c = (fst c, strip (lower (fst (snd c))))"

definition dedup_inv :: "annotation_state \<Rightarrow> bool" where
  "dedup_inv st =
     (distinct (map call_key (calls st)) \<and> seen_comments st = set (map call_key (calls st)))"

text \<open>
  The shape of a normalized key: lowercase letters, digits and blanks only, no two
  blanks in a row, and no white space at either end.
\<close>

definition key_char :: "char \<Rightarrow> bool" where
  "key_char c = (c \<in> set ascii_lower \<or> c \<in> set ascii_digits \<or> c = CHR '' '')"

fun single_spaced :: "string \<Rightarrow> bool" where
  "single_spaced [] = True"
| "single_spaced [c] = True"
| "single_spaced (a # b # s) = (\<not> (a = CHR '' '' \<and> b = CHR '' '') \<and> single_spaced (b # s))"

definition trimmed :: "string \<Rightarrow> bool" where
  "trimmed k = (k = [] \<or> (\<not> is_space (hd k) \<and> \<not> is_space (last k)))"

definition key_form :: "string \<Rightarrow> bool" where
  "key_form k = (list_all key_char k \<and> single_spaced k \<and> trimmed k)"

section \<open>Required clauses\<close>

lemma clause_loop_eq:
  "clause_loop render text (map JStr cs) missing =
     missing @ filter (\<lambda>k. \<not> py_in (lower k) text) (filter (\<lambda>k. k \<noteq> []) (map strip cs))"
  by (induction cs arbitrary: missing) (simp_all add: Let_def)

lemma trimmed_clauses_kept:
  assumes "\<forall>k \<in> set cs. strip k = k \<and> k \<noteq> []"
  shows "filter (\<lambda>k. k \<noteq> []) (map strip cs) = cs"
  using assms by (induction cs) auto

lemma check_required_clauses_entry:
  assumes "dict_get cfg ''clauses_per_doc'' = None \<and> per_doc = []
     \<or> dict_get cfg ''clauses_per_doc'' = Some (JDict per_doc)"
  shows "check_required_clauses render d t (JDict cfg) =
     (let entry = get_or (dict_get per_doc t) (JList [])
      in case py_iter (if truthy entry then entry else JList []) of
           Inl e \<Rightarrow> Inl e
         | Inr clauses \<Rightarrow> Inr (clause_loop render (lower (full_text_or_empty d)) clauses []))"
  using assms by (auto simp: check_required_clauses_def get_or_def Let_def)

lemma check_required_clauses_list:
  assumes "dict_get cfg ''clauses_per_doc'' = None \<and> per_doc = []
     \<or> dict_get cfg ''clauses_per_doc'' = Some (JDict per_doc)"
    and "dict_get per_doc t = Some (JList (map JStr cs))"
  shows "check_required_clauses render d t (JDict cfg) =
     Inr (filter (\<lambda>k. \<not> py_in (lower k) (lower (full_text_or_empty d)))
            (filter (\<lambda>k. k \<noteq> []) (map strip cs)))"
proof (cases cs)
  case Nil
  then show ?thesis
    using assms(2) by (simp add: check_required_clauses_entry [OF assms(1)] get_or_def)
next
  case (Cons c cs')
  then have "truthy (JList (map JStr cs))" by simp
  then show ?thesis
    using assms(2)
    by (simp add: check_required_clauses_entry [OF assms(1)] get_or_def clause_loop_eq)
qed

lemma check_required_clauses_no_entry:
  assumes "dict_get cfg ''clauses_per_doc'' = None \<and> per_doc = []
     \<or> dict_get cfg ''clauses_per_doc'' = Some (JDict per_doc)"
    and "dict_get per_doc t = None \<or> dict_get per_doc t = Some JNull"
  shows "check_required_clauses render d t (JDict cfg) = Inr []"
  using assms(2)
  by (auto simp: check_required_clauses_entry [OF assms(1)] get_or_def)

text \<open>
  The first \<open>get\<close> has a default for a missing key only. When the key
  \<open>clauses_per_doc\<close> is present with the value null, the second \<open>get\<close> is called on
  \<open>None\<close> and \<open>AttributeError\<close> leaves \<open>check_required_clauses\<close>.
\<close>

lemma null_clauses_per_doc_raises:
  assumes "dict_get cfg ''clauses_per_doc'' = Some JNull"
  shows "check_required_clauses render d t (JDict cfg) = Inl AttributeError"
  using assms by (simp add: check_required_clauses_def get_or_def)

text \<open>
  C3, as the specification states it, fails: a keyword that is blank, or that has white
  space around it, is not compared as it stands. For the rule \<open>" "\<close> and the text
  \<open>"abc"\<close> the code reports nothing, although \<open>" "\<close> does not occur in \<open>"abc"\<close>.
\<close>

theorem check_required_clauses_blank_keyword:
  "check_required_clauses (\<lambda>v. ''?'')
      \<lparr>paragraphs = [''abc''], headings = [], full_text = Some ''abc''\<rparr>
      ''Board Resolution''
      (JDict [(''clauses_per_doc'', JDict [(''Board Resolution'', JList [JStr '' ''])])])
    = Inr []
   \<and> specified_missing_clauses ''abc'' ['' ''] = ['' '']"
  by code_simp

text \<open>
  C3, amended: for a rule set whose \<open>clauses_per_doc\<close> is a dictionary, or is missing,
  \<open>check_required_clauses\<close> returns, in rule-set order, the trimmed form of exactly those
  keywords of the document type that are not blank and whose trimmed, lowercased form
  is not a substring of the lowercased full text; for keywords that are trimmed and not
  blank this is the list the specification describes; and when there is no entry or a
  null entry for the document type, the result is the empty list and nothing is raised.
\<close>

theorem check_required_clauses_trimmed:
  assumes "rules = JDict cfg"
    and "dict_get cfg ''clauses_per_doc'' = None \<and> per_doc = []
     \<or> dict_get cfg ''clauses_per_doc'' = Some (JDict per_doc)"
  shows "(dict_get per_doc t = Some (JList (map JStr cs)) \<longrightarrow>
        check_required_clauses render d t rules =
          Inr (filter (\<lambda>k. \<not> py_in (lower k) (lower (full_text_or_empty d)))
                 (filter (\<lambda>k. k \<noteq> []) (map strip cs))))
   \<and> (dict_get per_doc t = Some (JList (map JStr cs))
        \<and> (\<forall>k \<in> set cs. strip k = k \<and> k \<noteq> []) \<longrightarrow>
        check_required_clauses render d t rules =
          Inr (specified_missing_clauses (full_text_or_empty d) cs))
   \<and> (dict_get per_doc t = None \<or> dict_get per_doc t = Some JNull \<longrightarrow>
        check_required_clauses render d t rules = Inr [])"
proof (intro conjI impI)
  assume entry: "dict_get per_doc t = Some (JList (map JStr cs))"
  show "check_required_clauses render d t rules =
      Inr (filter (\<lambda>k. \<not> py_in (lower k) (lower (full_text_or_empty d)))
             (filter (\<lambda>k. k \<noteq> []) (map strip cs)))"
    unfolding assms(1) using assms(2) entry by (rule check_required_clauses_list)
next
  assume h: "dict_get per_doc t = Some (JList (map JStr cs))
      \<and> (\<forall>k \<in> set cs. strip k = k \<and> k \<noteq> [])"
  from h have entry: "dict_get per_doc t = Some (JList (map JStr cs))"
    by (rule conjunct1)
  from h have "\<forall>k \<in> set cs. strip k = k \<and> k \<noteq> []"
    by (rule conjunct2)
  then have "filter (\<lambda>k. k \<noteq> []) (map strip cs) = cs"
    by (rule trimmed_clauses_kept)
  moreover have "check_required_clauses render d t (JDict cfg) =
      Inr (filter (\<lambda>k. \<not> py_in (lower k) (lower (full_text_or_empty d)))
             (filter (\<lambda>k. k \<noteq> []) (map strip cs)))"
    using assms(2) entry by (rule check_required_clauses_list)
  ultimately show "check_required_clauses render d t rules =
      Inr (specified_missing_clauses (full_text_or_empty d) cs)"
    unfolding assms(1) by (simp add: specified_missing_clauses_def)
next
  assume none: "dict_get per_doc t = None \<or> dict_get per_doc t = Some JNull"
  show "check_required_clauses render d t rules = Inr []"
    unfolding assms(1) using assms(2) none by (rule check_required_clauses_no_entry)
qed

theorem check_required_clauses_trimmed_witness:
  "check_required_clauses (\<lambda>v. ''?'')
      \<lparr>paragraphs = [''The Directors agree.''], headings = [],
       full_text = Some ''The Directors agree.''\<rparr> ''Board Resolution''
      (JDict [(''clauses_per_doc'',
               JDict [(''Board Resolution'', JList (map JStr [''Directors'', ''Signatories'']))])])
     = Inr [''Signatories'']
   \<and> check_required_clauses (\<lambda>v. ''?'')
      \<lparr>paragraphs = [''The Directors agree.''], headings = [],
       full_text = Some ''The Directors agree.''\<rparr> ''Unknown''
      (JDict [(''clauses_per_doc'',
               JDict [(''Board Resolution'', JList (map JStr [''Directors'', ''Signatories'']))])])
     = Inr []"
proof -
  let ?d = "\<lparr>paragraphs = [''The Directors agree.''], headings = [],
        full_text = Some ''The Directors agree.''\<rparr>"
  let ?per = "[(''Board Resolution'', JList (map JStr [''Directors'', ''Signatories'']))]"
  let ?cfg = "[(''clauses_per_doc'', JDict ?per)]"
  have cfg: "dict_get ?cfg ''clauses_per_doc'' = None \<and> ?per = []
      \<or> dict_get ?cfg ''clauses_per_doc'' = Some (JDict ?per)"
    by (simp add: dict_get_def)
  have entry: "dict_get ?per ''Board Resolution'' = Some (JList (map JStr [''Directors'', ''Signatories'']))
      \<and> (\<forall>k \<in> set [''Directors'', ''Signatories'']. strip k = k \<and> k \<noteq> [])"
    by code_simp
  have spec: "specified_missing_clauses (full_text_or_empty ?d) [''Directors'', ''Signatories'']
      = [''Signatories'']"
    by code_simp
  have no_entry: "dict_get ?per ''Unknown'' = None \<or> dict_get ?per ''Unknown'' = Some JNull"
    by (simp add: dict_get_def)
  have "check_required_clauses (\<lambda>v. ''?'') ?d ''Board Resolution'' (JDict ?cfg) =
      Inr (specified_missing_clauses (full_text_or_empty ?d) [''Directors'', ''Signatories''])"
    using check_required_clauses_trimmed [OF refl cfg, THEN conjunct2, THEN conjunct1] entry
    by (rule mp)
  moreover have "check_required_clauses (\<lambda>v. ''?'') ?d ''Unknown'' (JDict ?cfg) = Inr []"
    using check_required_clauses_trimmed [OF refl cfg, THEN conjunct2, THEN conjunct2] no_entry
    by (rule mp)
  ultimately show ?thesis
    by (simp only: spec)
qed

section \<open>Locating paragraphs\<close>

lemma upt_0_Suc: "[0..<Suc n] = 0 # map Suc [0..<n]"
  by (simp add: upt_conv_Cons map_Suc_upt del: upt_Suc)

lemma paragraph_loop_eq:
  "paragraph_loop sn i ps idxs =
     idxs @ map (\<lambda>k. i + int k) (filter (\<lambda>k. py_in sn (lower (ps ! k))) [0..<length ps])"
proof (induction ps arbitrary: i idxs)
  case Nil
  then show ?case by simp
next
  case (Cons p ps)
  have shift:
    "map (\<lambda>k. i + int k) (filter (\<lambda>k. py_in sn (lower ((p # ps) ! k))) (map Suc [0..<length ps]))
      = map (\<lambda>k. (i + 1) + int k) (filter (\<lambda>k. py_in sn (lower (ps ! k))) [0..<length ps])"
    by (simp add: filter_map comp_def)
  show ?case
    using shift by (simp add: Cons.IH upt_0_Suc del: upt_Suc)
qed

lemma find_paragraph_indexes_eq:
  "find_paragraph_indexes snippet ps =
     (if snippet = [] then []
      else map int (filter (\<lambda>k. py_in (lower snippet) (lower (ps ! k))) [0..<length ps]))"
  by (simp add: find_paragraph_indexes_def paragraph_loop_eq)

lemma target_index_eq:
  "target_index hits ps =
     (if hits \<noteq> [] then hd hits else if ps = [] then 0 else int (length ps) - 1)"
  by (cases hits; cases ps) (simp_all add: target_index_def)

lemma guarded_lookup: "(if s \<noteq> [] then find_paragraph_indexes s ps else []) = find_paragraph_indexes s ps"
  by (simp add: find_paragraph_indexes_def)

text \<open>
  C8: \<open>find_paragraph_indexes\<close> returns, in ascending order, exactly the indices of the
  paragraphs whose lowercased text contains the lowercased snippet, and nothing for the
  empty snippet; in each of the three annotation loops the target is the first index
  returned, or else the last paragraph index, or 0 for a document without paragraphs
  (in the third loop for every suggestion that is a dictionary whose issue is a string
  or false, the others raise before a target is computed).
\<close>

theorem find_paragraph_indexes_all_matches:
  "find_paragraph_indexes snippet ps =
     (if snippet = [] then []
      else map int (filter (\<lambda>k. py_in (lower snippet) (lower (ps ! k))) [0..<length ps]))
   \<and> target_index (find_paragraph_indexes snippet ps) ps =
       (if find_paragraph_indexes snippet ps \<noteq> [] then hd (find_paragraph_indexes snippet ps)
        else if ps = [] then 0 else int (length ps) - 1)
   \<and> annotate_clause ps st clause =
       annotate_once st (target_index (find_paragraph_indexes clause ps) ps)
         (''Missing required clause: '' @ clause) ''YELLOW''
   \<and> annotate_red_flag ps st rf =
       annotate_once st (target_index (find_paragraph_indexes (rf_match rf) ps) ps)
         (''Red flag: '' @ rf_issue rf) ''RED''
   \<and> (str_or_empty (dict_get sug ''issue'') = Inr raw_issue \<longrightarrow>
        (\<exists>comment. annotate_suggestion render ps st (JDict sug) =
           Inr (annotate_once st
                  (target_index (find_paragraph_indexes
                     (strip (takeWhile (\<lambda>c. c \<noteq> CHR '':'') raw_issue)) ps) ps)
                  comment ''YELLOW'')))"
proof (intro conjI impI)
  assume "str_or_empty (dict_get sug ''issue'') = Inr raw_issue"
  then show "\<exists>comment. annotate_suggestion render ps st (JDict sug) =
           Inr (annotate_once st
                  (target_index (find_paragraph_indexes
                     (strip (takeWhile (\<lambda>c. c \<noteq> CHR '':'') raw_issue)) ps) ps)
                  comment ''YELLOW'')"
    by (simp only: annotate_suggestion.simps sum.case Let_def guarded_lookup) blast
next
  show "find_paragraph_indexes snippet ps =
     (if snippet = [] then []
      else map int (filter (\<lambda>k. py_in (lower snippet) (lower (ps ! k))) [0..<length ps]))"
    by (rule find_paragraph_indexes_eq)
next
  show "target_index (find_paragraph_indexes snippet ps) ps =
       (if find_paragraph_indexes snippet ps \<noteq> [] then hd (find_paragraph_indexes snippet ps)
        else if ps = [] then 0 else int (length ps) - 1)"
    by (rule target_index_eq)
next
  show "annotate_clause ps st clause =
       annotate_once st (target_index (find_paragraph_indexes clause ps) ps)
         (''Missing required clause: '' @ clause) ''YELLOW''"
    unfolding annotate_clause_def Let_def by (rule refl)
next
  show "annotate_red_flag ps st rf =
       annotate_once st (target_index (find_paragraph_indexes (rf_match rf) ps) ps)
         (''Red flag: '' @ rf_issue rf) ''RED''"
    unfolding annotate_red_flag_def Let_def guarded_lookup by (rule refl)
qed

theorem find_paragraph_indexes_all_matches_witness:
  "find_paragraph_indexes ''sign'' [''Signed by A'', ''Clause 2'', ''to SIGN here''] = [0, 2]
   \<and> target_index (find_paragraph_indexes ''sign'' [''Signed by A'', ''Clause 2'', ''to SIGN here''])
        [''Signed by A'', ''Clause 2'', ''to SIGN here''] = 0
   \<and> target_index (find_paragraph_indexes ''seal'' [''Signed by A'', ''Clause 2'', ''to SIGN here''])
        [''Signed by A'', ''Clause 2'', ''to SIGN here''] = 2
   \<and> target_index (find_paragraph_indexes ''seal'' []) [] = 0
   \<and> (\<exists>comment. annotate_suggestion (\<lambda>v. ''?'')
          [''Signed by A'', ''Clause 2'', ''to SIGN here'']
          \<lparr>reviewed = [[], [], []], seen_comments = {}, calls = []\<rparr>
          (JDict [(''issue'', JStr ''Seal: missing''), (''suggestion'', JStr ''Add a seal.'')]) =
        Inr (annotate_once \<lparr>reviewed = [[], [], []], seen_comments = {}, calls = []\<rparr>
               (target_index (find_paragraph_indexes
                  (strip (takeWhile (\<lambda>c. c \<noteq> CHR '':'') ''Seal: missing''))
                  [''Signed by A'', ''Clause 2'', ''to SIGN here''])
                  [''Signed by A'', ''Clause 2'', ''to SIGN here''])
               comment ''YELLOW''))"
proof -
  let ?ps = "[''Signed by A'', ''Clause 2'', ''to SIGN here'']"
  note sign = find_paragraph_indexes_all_matches [where snippet = "''sign''" and ps = ?ps]
  note seal = find_paragraph_indexes_all_matches [where snippet = "''seal''" and ps = ?ps
      and sug = "[(''issue'', JStr ''Seal: missing''), (''suggestion'', JStr ''Add a seal.'')]"
      and raw_issue = "''Seal: missing''" and render = "\<lambda>v. ''?''"
      and st = "\<lparr>reviewed = [[], [], []], seen_comments = {}, calls = []\<rparr>"]
  note none = find_paragraph_indexes_all_matches [where snippet = "''seal''" and ps = "[]"]
  have a: "map int (filter (\<lambda>k. py_in (lower ''sign'') (lower (?ps ! k))) [0..<length ?ps]) = [0, 2]"
    by code_simp
  have b: "map int (filter (\<lambda>k. py_in (lower ''seal'') (lower (?ps ! k))) [0..<length ?ps]) = []"
    by code_simp
  have 1: "find_paragraph_indexes ''sign'' ?ps = [0, 2]"
    using sign [THEN conjunct1] by (simp only: a) simp
  have 2: "find_paragraph_indexes ''seal'' ?ps = []"
    using seal [THEN conjunct1] by (simp only: b) simp
  have 3: "find_paragraph_indexes ''seal'' [] = []"
    using none [THEN conjunct1] by simp
  have 4: "target_index (find_paragraph_indexes ''sign'' ?ps) ?ps = 0"
    using sign [THEN conjunct2, THEN conjunct1] by (simp only: 1) simp
  have 5: "target_index (find_paragraph_indexes ''seal'' ?ps) ?ps = 2"
    using seal [THEN conjunct2, THEN conjunct1] by (simp only: 2) simp
  have 6: "target_index (find_paragraph_indexes ''seal'' []) [] = 0"
    using none [THEN conjunct2, THEN conjunct1] by (simp only: 3) simp
  have issue: "str_or_empty (dict_get [(''issue'', JStr ''Seal: missing''),
        (''suggestion'', JStr ''Add a seal.'')] ''issue'') = Inr ''Seal: missing''"
    by (simp add: dict_get_def)
  have 7: "\<exists>comment. annotate_suggestion (\<lambda>v. ''?'') ?ps
          \<lparr>reviewed = [[], [], []], seen_comments = {}, calls = []\<rparr>
          (JDict [(''issue'', JStr ''Seal: missing''), (''suggestion'', JStr ''Add a seal.'')]) =
        Inr (annotate_once \<lparr>reviewed = [[], [], []], seen_comments = {}, calls = []\<rparr>
               (target_index (find_paragraph_indexes
                  (strip (takeWhile (\<lambda>c. c \<noteq> CHR '':'') ''Seal: missing'')) ?ps) ?ps)
               comment ''YELLOW'')"
    using seal [THEN conjunct2, THEN conjunct2, THEN conjunct2, THEN conjunct2] issue
    by (rule mp)
  show ?thesis
    using 1 4 5 6 7 by (intro conjI)
qed

section \<open>Annotating a paragraph\<close>

lemma separator_compatible: "separator c \<Longrightarrow> xml_compatible c"
  by (simp add: separator_def xml_compatible_def)

lemma write_text_ok:
  "list_all xml_compatible (piece @ rest) \<Longrightarrow>
     write_text written piece rest = (written @ piece @ rest, None)"
  by (induction rest arbitrary: written piece) simp_all

lemma write_text_bad:
  "\<not> list_all xml_compatible (piece @ rest) \<Longrightarrow>
     snd (write_text written piece rest) = Some ValueError"
  by (induction rest arbitrary: written piece) (auto simp: separator_compatible)

lemma write_text_start:
  "list_all xml_compatible s \<Longrightarrow> write_text [] [] s = (s, None)"
  using write_text_ok [of "[]" s "[]"] by simp

lemma write_text_stops:
  "\<not> list_all xml_compatible s \<Longrightarrow> snd (write_text [] [] s) = Some ValueError"
  using write_text_bad [of "[]" s "[]"] by simp

lemma comment_marker_compatible:
  "list_all xml_compatible (comment_marker c) \<longleftrightarrow> list_all xml_compatible c"
proof -
  have "list_all xml_compatible '' [COMMENT: ''" and "list_all xml_compatible '']''"
    by code_simp+
  then show ?thesis
    unfolding comment_marker_def list_all_append by blast
qed

lemma add_run_ok:
  assumes "list_all xml_compatible c"
  shows "add_run (comment_marker c) =
     (\<lparr>run_text = comment_marker c, run_bold = None, run_highlight = None\<rparr>, None)"
proof -
  have "list_all xml_compatible (comment_marker c)"
    using assms by (simp add: comment_marker_compatible)
  then have "write_text [] [] (comment_marker c) = (comment_marker c, None)"
    by (rule write_text_start)
  then show ?thesis
    by (simp add: add_run_def)
qed

lemma add_run_bad:
  assumes "\<not> list_all xml_compatible c"
  shows "add_run (comment_marker c) =
     (\<lparr>run_text = fst (write_text [] [] (comment_marker c)),
       run_bold = None, run_highlight = None\<rparr>, Some ValueError)"
proof -
  have "\<not> list_all xml_compatible (comment_marker c)"
    using assms by (simp add: comment_marker_compatible)
  then have "snd (write_text [] [] (comment_marker c)) = Some ValueError"
    by (rule write_text_stops)
  then show ?thesis
    by (cases "write_text [] [] (comment_marker c)") (simp add: add_run_def)
qed

lemma annotate_try_empty: "annotate_try [] i c h = ([], Some IndexError)"
  by (auto simp: annotate_try_def py_getitem_def)

lemma target_paragraph:
  assumes "doc \<noteq> []"
  shows "py_getitem doc (if i < 0 \<or> int (length doc) \<le> i then max 0 (int (length doc) - 1) else i)
      = Inr (doc ! (if 0 \<le> i \<and> i < int (length doc) then nat i else length doc - 1))"
    and "nat (if i < 0 \<or> int (length doc) \<le> i then max 0 (int (length doc) - 1) else i)
      = (if 0 \<le> i \<and> i < int (length doc) then nat i else length doc - 1)"
proof -
  have "0 < length doc" using assms by simp
  then show "py_getitem doc (if i < 0 \<or> int (length doc) \<le> i then max 0 (int (length doc) - 1) else i)
      = Inr (doc ! (if 0 \<le> i \<and> i < int (length doc) then nat i else length doc - 1))"
    by (auto simp: py_getitem_def nat_diff_distrib')
  show "nat (if i < 0 \<or> int (length doc) \<le> i then max 0 (int (length doc) - 1) else i)
      = (if 0 \<le> i \<and> i < int (length doc) then nat i else length doc - 1)"
    by (auto simp: nat_diff_distrib')
qed

lemma annotate_try_written:
  assumes "doc \<noteq> []" and "list_all xml_compatible c"
  shows "annotate_try doc i c h =
     (doc[(if 0 \<le> i \<and> i < int (length doc) then nat i else length doc - 1) :=
            doc ! (if 0 \<le> i \<and> i < int (length doc) then nat i else length doc - 1)
              @ [comment_run c h]], None)"
  unfolding annotate_try_def Let_def target_paragraph [OF assms(1)] add_run_ok [OF assms(2)]
  by (simp add: comment_run_def Let_def)

lemma annotate_try_interrupted:
  assumes "doc \<noteq> []" and "\<not> list_all xml_compatible c"
  shows "annotate_try doc i c h =
     (doc[(if 0 \<le> i \<and> i < int (length doc) then nat i else length doc - 1) :=
            doc ! (if 0 \<le> i \<and> i < int (length doc) then nat i else length doc - 1)
              @ [\<lparr>run_text = fst (write_text [] [] (comment_marker c)),
                   run_bold = None, run_highlight = None\<rparr>]], Some ValueError)"
  unfolding annotate_try_def Let_def target_paragraph [OF assms(1)] add_run_bad [OF assms(2)]
  by simp

text \<open>
  C10, as stated, fails: a failure inside the \<open>try\<close> block can leave the document
  changed. For a comment with the control character 0x01, \<open>add_run\<close> raises after it
  has appended its run; the exception is caught, and the empty run stays in the
  paragraph.
\<close>

theorem annotate_paragraph_keeps_stray_run:
  "annotate_try [[]] 0 [CHR ''a'', CHR 0x01, CHR ''b''] ''YELLOW'' =
     ([[\<lparr>run_text = [], run_bold = None, run_highlight = None\<rparr>]], Some ValueError)
   \<and> annotate_paragraph [[]] 0 [CHR ''a'', CHR 0x01, CHR ''b''] ''YELLOW'' \<noteq> [[]]"
  by code_simp

text \<open>
  C10, amended: \<open>annotate_paragraph\<close> never raises, whatever the index and the comment.
  For a document without paragraphs the redirected index is 0, the lookup raises
  \<open>IndexError\<close> inside the \<open>try\<close> block, and the document is returned unchanged. For a
  document with paragraphs the target is the paragraph at the index, or the last one
  when the index is negative or past the end: the comment run is appended to it when
  every character of the comment can be stored as XML text; otherwise \<open>ValueError\<close> is
  caught as well, and the target paragraph keeps the run that \<open>add_run\<close> had appended,
  without bold or highlight and with the text written before the failure. No other
  paragraph changes.
\<close>

theorem annotate_paragraph_never_raises:
  "(doc = [] \<longrightarrow>
      annotate_try doc i c h = (doc, Some IndexError) \<and> annotate_paragraph doc i c h = doc)
   \<and> (doc \<noteq> [] \<and> list_all xml_compatible c \<longrightarrow>
      (let j = (if 0 \<le> i \<and> i < int (length doc) then nat i else length doc - 1)
       in annotate_try doc i c h = (doc[j := doc ! j @ [comment_run c h]], None)
          \<and> annotate_paragraph doc i c h = doc[j := doc ! j @ [comment_run c h]]))
   \<and> (doc \<noteq> [] \<and> \<not> list_all xml_compatible c \<longrightarrow>
      (let j = (if 0 \<le> i \<and> i < int (length doc) then nat i else length doc - 1);
           stray = \<lparr>run_text = fst (write_text [] [] (comment_marker c)),
                    run_bold = None, run_highlight = None\<rparr>
       in annotate_try doc i c h = (doc[j := doc ! j @ [stray]], Some ValueError)
          \<and> annotate_paragraph doc i c h = doc[j := doc ! j @ [stray]]))"
  by (simp add: annotate_paragraph_def annotate_try_empty annotate_try_written
      annotate_try_interrupted Let_def)

theorem annotate_paragraph_never_raises_witness:
  "annotate_paragraph [] (- 3) ''note'' ''RED'' = []
   \<and> annotate_paragraph [[], []] 7 ''note'' ''RED'' = [[], [comment_run ''note'' ''RED'']]
   \<and> annotate_paragraph [[], []] (- 1) ''note'' ''RED'' = [[], [comment_run ''note'' ''RED'']]
   \<and> annotate_paragraph [[], []] 0 ''note'' ''RED'' = [[comment_run ''note'' ''RED''], []]
   \<and> annotate_paragraph [[], []] 7 [CHR 0x0C] ''RED'' =
        [[], [\<lparr>run_text = fst (write_text [] [] (comment_marker [CHR 0x0C])),
               run_bold = None, run_highlight = None\<rparr>]]"
proof -
  have ok: "list_all xml_compatible ''note''"
    by code_simp
  have bad: "\<not> list_all xml_compatible [CHR 0x0C]"
    by code_simp
  have 1: "annotate_paragraph [] (- 3) ''note'' ''RED'' = []"
    using annotate_paragraph_never_raises [of "[]" "- 3" "''note''" "''RED''"] by simp
  have 2: "annotate_paragraph [[], []] 7 ''note'' ''RED'' = [[], [comment_run ''note'' ''RED'']]"
    using annotate_paragraph_never_raises [of "[[], []]" 7 "''note''" "''RED''"] ok
    by (simp add: Let_def)
  have 3: "annotate_paragraph [[], []] (- 1) ''note'' ''RED'' = [[], [comment_run ''note'' ''RED'']]"
    using annotate_paragraph_never_raises [of "[[], []]" "- 1" "''note''" "''RED''"] ok
    by (simp add: Let_def)
  have 4: "annotate_paragraph [[], []] 0 ''note'' ''RED'' = [[comment_run ''note'' ''RED''], []]"
    using annotate_paragraph_never_raises [of "[[], []]" 0 "''note''" "''RED''"] ok
    by (simp add: Let_def)
  have 5: "annotate_paragraph [[], []] 7 [CHR 0x0C] ''RED'' =
        [[], [\<lparr>run_text = fst (write_text [] [] (comment_marker [CHR 0x0C])),
               run_bold = None, run_highlight = None\<rparr>]]"
    using annotate_paragraph_never_raises [of "[[], []]" 7 "[CHR 0x0C]" "''RED''"] bad
    by (simp add: Let_def)
  show ?thesis
    using 1 2 3 4 5 by (intro conjI)
qed

section \<open>Red flags\<close>

lemma lower_append: "lower (a @ b) = lower a @ lower b"
  by (simp add: lower_def)

lemma lower_Signature: "lower ''Signature:'' = ''signature:''"
  by (simp add: lower_def lower_char_def ascii_upper_def ascii_lower_def)

lemma sign_in_signature: "py_in ''sign'' (a @ ''signature:'' @ b)"
proof -
  have "a @ ''signature:'' @ b = a @ ''sign'' @ (''ature:'' @ b)" by simp
  then show ?thesis unfolding py_in_def sublist_def by blast
qed

lemma signatory_count:
  "length (filter is_signatory_flag (find_red_flags d doc_type)) =
     (if (case doc_type of None \<Rightarrow> False | Some t \<Rightarrow> t \<in> requires_signature)
         \<and> \<not> py_in ''sign'' (lower (full_text_or_empty d))
         \<and> \<not> py_in ''signature'' (lower (full_text_or_empty d)) then 1 else 0)"
  by (simp add: find_red_flags_def Let_def is_signatory_flag_def jurisdiction_flag_def
      ambiguity_flag_def signatory_flag_def)

lemma signatory_high:
  "rf \<in> set (find_red_flags d doc_type) \<Longrightarrow> is_signatory_flag rf \<Longrightarrow> rf_severity rf = ''High''"
  by (auto simp: find_red_flags_def Let_def is_signatory_flag_def jurisdiction_flag_def
      ambiguity_flag_def signatory_flag_def split: if_splits)

lemma length_filter_0: "length (filter P xs) = 0 \<longleftrightarrow> filter P xs = []"
  by simp

text \<open>
  C7: for a document type of the signature-bearing set, \<open>find_red_flags\<close> returns the
  missing-signatory flag exactly once when neither \<open>sign\<close> nor \<open>signature\<close> occurs in the
  lowercased text and not at all otherwise; the flag has severity High; a text that
  contains \<open>Signature:\<close> has no such flag; and a document type outside the set, or no
  document type, has none.
\<close>

theorem signatory_flag_iff:
  "(t \<in> requires_signature \<longrightarrow>
      length (filter is_signatory_flag (find_red_flags d (Some t))) =
        (if \<not> py_in ''sign'' (lower (full_text_or_empty d))
            \<and> \<not> py_in ''signature'' (lower (full_text_or_empty d)) then 1 else 0))
   \<and> (\<forall>rf \<in> set (find_red_flags d doc_type). is_signatory_flag rf \<longrightarrow> rf_severity rf = ''High'')
   \<and> (full_text d = Some (a @ ''Signature:'' @ b) \<longrightarrow>
        filter is_signatory_flag (find_red_flags d doc_type) = [])
   \<and> (doc_type = None \<or> (\<exists>u. doc_type = Some u \<and> u \<notin> requires_signature) \<longrightarrow>
        filter is_signatory_flag (find_red_flags d doc_type) = [])"
proof (intro conjI impI ballI)
  assume "t \<in> requires_signature"
  then show "length (filter is_signatory_flag (find_red_flags d (Some t))) =
        (if \<not> py_in ''sign'' (lower (full_text_or_empty d))
            \<and> \<not> py_in ''signature'' (lower (full_text_or_empty d)) then 1 else 0)"
    by (simp add: signatory_count)
next
  fix rf assume "rf \<in> set (find_red_flags d doc_type)" "is_signatory_flag rf"
  then show "rf_severity rf = ''High''" by (rule signatory_high)
next
  assume "full_text d = Some (a @ ''Signature:'' @ b)"
  then have "full_text_or_empty d = a @ ''Signature:'' @ b"
    unfolding full_text_or_empty_def by (simp only: option.case)
  then have "lower (full_text_or_empty d) = lower a @ ''signature:'' @ lower b"
    by (simp only: lower_append lower_Signature)
  then have "py_in ''sign'' (lower (full_text_or_empty d))"
    by (simp only: sign_in_signature)
  then have "length (filter is_signatory_flag (find_red_flags d doc_type)) = 0"
    by (simp only: signatory_count) simp
  then show "filter is_signatory_flag (find_red_flags d doc_type) = []"
    by (simp only: length_filter_0)
next
  assume "doc_type = None \<or> (\<exists>u. doc_type = Some u \<and> u \<notin> requires_signature)"
  then have "length (filter is_signatory_flag (find_red_flags d doc_type)) = 0"
    by (simp only: signatory_count) auto
  then show "filter is_signatory_flag (find_red_flags d doc_type) = []"
    by (simp only: length_filter_0)
qed

theorem signatory_flag_iff_witness:
  "''Board Resolution'' \<in> requires_signature
   \<and> length (filter is_signatory_flag
        (find_red_flags \<lparr>paragraphs = [''Resolved.''], headings = [], full_text = Some ''Resolved.''\<rparr>
           (Some ''Board Resolution''))) = 1
   \<and> filter is_signatory_flag
        (find_red_flags \<lparr>paragraphs = [], headings = [],
             full_text = Some (''Resolved. '' @ ''Signature:'' @ '' A. Director'')\<rparr>
           (Some ''Board Resolution'')) = []
   \<and> filter is_signatory_flag
        (find_red_flags \<lparr>paragraphs = [''Resolved.''], headings = [], full_text = Some ''Resolved.''\<rparr>
           (Some ''Register of Members and Directors'')) = []
   \<and> signatory_flag \<in> set
        (find_red_flags \<lparr>paragraphs = [''Resolved.''], headings = [], full_text = Some ''Resolved.''\<rparr>
           (Some ''Board Resolution''))
   \<and> is_signatory_flag signatory_flag
   \<and> rf_severity signatory_flag = ''High''"
proof -
  let ?d = "\<lparr>paragraphs = [''Resolved.''], headings = [], full_text = Some ''Resolved.''\<rparr>"
  let ?e = "\<lparr>paragraphs = [], headings = [],
             full_text = Some (''Resolved. '' @ ''Signature:'' @ '' A. Director'')\<rparr>"
  have member: "''Board Resolution'' \<in> requires_signature"
    by (simp add: requires_signature_def)
  have absent: "\<not> py_in ''sign'' (lower (full_text_or_empty ?d))
      \<and> \<not> py_in ''signature'' (lower (full_text_or_empty ?d))"
    by code_simp
  have full: "full_text ?e = Some (''Resolved. '' @ ''Signature:'' @ '' A. Director'')"
    by (simp only: doc_info.simps)
  have other: "Some ''Register of Members and Directors'' = None
      \<or> (\<exists>u. Some ''Register of Members and Directors'' = Some u \<and> u \<notin> requires_signature)"
    by (simp add: requires_signature_def)
  have 1: "length (filter is_signatory_flag (find_red_flags ?d (Some ''Board Resolution''))) = 1"
    using signatory_flag_iff [where t = "''Board Resolution''" and d = ?d, THEN conjunct1]
      member absent by simp
  have 2: "filter is_signatory_flag (find_red_flags ?e (Some ''Board Resolution'')) = []"
    using signatory_flag_iff [where d = ?e and a = "''Resolved. ''" and b = "'' A. Director''"
        and doc_type = "Some ''Board Resolution''", THEN conjunct2, THEN conjunct2, THEN conjunct1]
      full by (rule mp)
  have 3: "filter is_signatory_flag (find_red_flags ?d (Some ''Register of Members and Directors'')) = []"
    using signatory_flag_iff [where d = ?d and doc_type = "Some ''Register of Members and Directors''",
        THEN conjunct2, THEN conjunct2, THEN conjunct2] other by (rule mp)
  have present: "signatory_flag \<in> set (find_red_flags ?d (Some ''Board Resolution''))"
    by code_simp
  have flag: "is_signatory_flag signatory_flag"
    by code_simp
  have 4: "rf_severity signatory_flag = ''High''"
    using signatory_flag_iff [where d = ?d and doc_type = "Some ''Board Resolution''",
        THEN conjunct2, THEN conjunct1, THEN bspec, OF present] flag by (rule mp)
  show ?thesis
    using member 1 2 3 present flag 4 by (intro conjI)
qed

section \<open>Reconciliation keeps the findings of the rule engine\<close>

lemma rule_fields_enrich: "rule_fields (enrich f sug) = rule_fields f"
  by (simp add: rule_fields_def enrich_def)

lemma match_loop_frame:
  "match_loop keys k sug idx fs = Inr (fs', m) \<Longrightarrow> map rule_fields fs' = map rule_fields fs"
proof (induction fs arbitrary: idx fs' m)
  case Nil
  then show ?case by simp
next
  case (Cons f fs)
  then show ?case
    by (auto simp: rule_fields_enrich split: sum.splits if_splits prod.splits)
qed

lemma merge_suggestion_frame:
  assumes "merge_suggestion dt keys fs sug = Inr fs'"
  shows "prefix (map rule_fields fs) (map rule_fields fs')"
proof (cases sug)
  case (JDict items)
  then show ?thesis
    using assms
    by (auto simp: Let_def split: if_splits sum.splits prod.splits dest: match_loop_frame)
qed (use assms in simp_all)

lemma merge_loop_frame:
  "prefix (map rule_fields fs) (map rule_fields (fst (merge_loop dt keys fs sugs)))"
proof (induction sugs arbitrary: fs)
  case Nil
  then show ?case by simp
next
  case (Cons sug sugs)
  show ?case
  proof (cases "merge_suggestion dt keys fs sug")
    case (Inl e)
    then show ?thesis by simp
  next
    case (Inr fs')
    have "prefix (map rule_fields fs) (map rule_fields fs')"
      using Inr by (rule merge_suggestion_frame)
    also have "prefix (map rule_fields fs') (map rule_fields (fst (merge_loop dt keys fs' sugs)))"
      by (rule Cons.IH)
    finally show ?thesis using Inr by simp
  qed
qed

lemma merge_ai_suggestions_frame:
  "prefix (map rule_fields fs) (map rule_fields (fst (merge_ai_suggestions dt fs sugs)))"
  by (cases "py_iter sugs") (simp_all add: merge_ai_suggestions_def merge_loop_frame)

lemma prefix_take: "prefix xs ys \<Longrightarrow> take (length xs) ys = xs \<and> length xs \<le> length ys"
  by (auto simp: prefix_def)

text \<open>
  C4: whatever the suggestions are, and whether or not the merge ends with an exception,
  the list of findings after the merge is at least as long as before, and its first
  entries are the findings from before, in order, with the fields document, section,
  issue, severity and suggestion unchanged.
\<close>

theorem merge_keeps_existing_findings:
  "map rule_fields (take (length fs) (fst (merge_ai_suggestions dt fs sugs))) = map rule_fields fs
   \<and> length fs \<le> length (fst (merge_ai_suggestions dt fs sugs))"
  using prefix_take [OF merge_ai_suggestions_frame [of fs dt sugs]] by (simp add: take_map)

section \<open>Annotation targets are not repeated\<close>

lemma annotate_once_inv: "dedup_inv st \<Longrightarrow> dedup_inv (annotate_once st i c h)"
  by (auto simp: dedup_inv_def annotate_once_def Let_def call_key_def)

lemma foldl_inv:
  assumes "\<And>st x. P st \<Longrightarrow> P (f st x)" and "P st"
  shows "P (foldl f st xs)"
  using assms(2) by (induction xs arbitrary: st) (simp_all add: assms(1))

lemma annotate_suggestion_inv:
  assumes "dedup_inv st" and "annotate_suggestion render ps st sug = Inr st'"
  shows "dedup_inv st'"
proof (cases sug)
  case (JDict items)
  then show ?thesis
    using assms by (auto simp: Let_def annotate_once_inv split: sum.splits)
qed (use assms in simp_all)

lemma annotate_suggestions_inv:
  "dedup_inv st \<Longrightarrow> dedup_inv (fst (annotate_suggestions render ps st sugs))"
proof (induction sugs arbitrary: st)
  case Nil
  then show ?case by simp
next
  case (Cons sug sugs)
  show ?case
  proof (cases "annotate_suggestion render ps st sug")
    case (Inl e)
    then show ?thesis using Cons.prems by simp
  next
    case (Inr st')
    then have "dedup_inv st'"
      using Cons.prems annotate_suggestion_inv by blast
    then have "dedup_inv (fst (annotate_suggestions render ps st' sugs))"
      by (rule Cons.IH)
    then show ?thesis using Inr by simp
  qed
qed

lemma annotate_document_inv: "dedup_inv (fst (annotate_document render doc ps mc rfs sugs))"
proof -
  let ?st0 = "\<lparr>reviewed = doc, seen_comments = {}, calls = []\<rparr>"
  let ?st2 = "foldl (annotate_red_flag ps) (foldl (annotate_clause ps) ?st0 mc) rfs"
  have 0: "dedup_inv ?st0"
    by (simp add: dedup_inv_def)
  have 1: "\<And>st x. dedup_inv st \<Longrightarrow> dedup_inv (annotate_clause ps st x)"
    by (simp add: annotate_clause_def Let_def annotate_once_inv)
  have 2: "\<And>st x. dedup_inv st \<Longrightarrow> dedup_inv (annotate_red_flag ps st x)"
    by (simp add: annotate_red_flag_def Let_def annotate_once_inv)
  have a: "dedup_inv (foldl (annotate_clause ps) ?st0 mc)"
    using 1 0 by (rule foldl_inv)
  have b: "dedup_inv ?st2"
    using 2 a by (rule foldl_inv)
  have c: "dedup_inv (fst (annotate_suggestions render ps ?st2 elems))" for elems
    using b by (rule annotate_suggestions_inv)
  show ?thesis
    using b c by (cases "py_iter sugs") (simp_all add: annotate_document_def Let_def)
qed

text \<open>
  C6: among the calls of \<open>annotate_paragraph\<close> made for one document, over the three
  loops, no two have the same pair of paragraph index and lowercased, trimmed comment,
  also when the third loop ends with an exception; the set \<open>seen_comments\<close> holds the
  pairs of this document's calls and nothing else, so it starts empty for every
  document.
\<close>

theorem annotation_targets_distinct:
  "distinct (map call_key
      (calls (fst (annotate_document render doc ps missing_clauses red_flags ai_suggestions))))
   \<and> seen_comments (fst (annotate_document render doc ps missing_clauses red_flags ai_suggestions)) =
       set (map call_key
         (calls (fst (annotate_document render doc ps missing_clauses red_flags ai_suggestions))))
   \<and> seen_comments (fst (annotate_document render doc ps [] [] (JList []))) = {}"
proof -
  have "dedup_inv (fst (annotate_document render doc ps missing_clauses red_flags ai_suggestions))"
    by (rule annotate_document_inv)
  moreover have "seen_comments (fst (annotate_document render doc ps [] [] (JList []))) = {}"
    by (simp add: annotate_document_def)
  ultimately show ?thesis
    by (simp add: dedup_inv_def)
qed

section \<open>The suggestion call\<close>

lemma parse_failure_gives_empty_list:
  "parse_try loads raw = Inl e \<Longrightarrow> parse_ai_response_to_list loads raw = JList []"
  by (simp add: parse_ai_response_to_list_def)

lemma parse_returns_parsed_value:
  "parse_try loads raw = Inr parsed \<Longrightarrow> parse_ai_response_to_list loads raw = parsed"
  by (simp add: parse_ai_response_to_list_def)

lemma call_failure_gives_no_suggestions:
  "fetch_ai_suggestions ai_active (Inl e) = JList []"
  by (simp add: fetch_ai_suggestions_def)

lemma chat_failure_leaves_generate:
  "chat prompt = Inl e \<Longrightarrow>
     generate_ai_suggestions_for_file (Inr (labels, prompt)) chat loads = Inl e"
  by (simp add: generate_ai_suggestions_for_file_def)

text \<open>
  The loop over the suggestions stands after the \<open>try\<close> block. An element of the parsed
  list that is not a dictionary has no method \<open>get\<close>, and an issue that is neither a
  string nor false has no method \<open>strip\<close>.
\<close>

lemma element_without_get_raises:
  "\<forall>items. sug \<noteq> JDict items \<Longrightarrow> merge_suggestion dt keys fs sug = Inl AttributeError"
  by (cases sug) simp_all

lemma first_element_without_get_surfaces:
  assumes "\<forall>items. sug \<noteq> JDict items"
  shows "merge_ai_suggestions dt fs (JList (sug # rest)) = (fs, Some AttributeError)"
  using element_without_get_raises [OF assms]
  by (simp add: merge_ai_suggestions_def)

text \<open>
  C9 at a concrete input: the service answers \<open>[1]\<close>, which \<open>json.loads\<close> parses to the
  list \<open>[1]\<close>. \<open>parse_ai_response_to_list\<close> returns that list, which is no list of
  records; with no reference retrieved the call returns it, the call site keeps it, and
  \<open>sug.get\<close> raises \<open>AttributeError\<close> outside the \<open>try\<close> block: the exception leaves
  \<open>analyze_files\<close>. With a reference retrieved the same happens for a response whose
  one record has the number 5 as its issue.
\<close>

theorem non_record_response_surfaces:
  "parse_ai_response_to_list
      (\<lambda>s. if s = ''[1]'' then Inr (JList [JNum 1]) else Inl ValueError) ''[1]''
     = JList [JNum 1]
   \<and> analyze_document (\<lambda>v. ''?'') (JDict [(''clauses_per_doc'', JDict [])]) ''resolution.docx''
        ''Board Resolution''
        \<lparr>paragraphs = [''Resolved and signed.''], headings = [],
         full_text = Some ''Resolved and signed.''\<rparr>
        [[]] True
        (generate_ai_suggestions_for_file (Inr ([], ''prompt'')) (\<lambda>p. Inr ''[1]'')
           (\<lambda>s. if s = ''[1]'' then Inr (JList [JNum 1]) else Inl ValueError))
     = Inl AttributeError
   \<and> analyze_document (\<lambda>v. ''?'') (JDict [(''clauses_per_doc'', JDict [])]) ''resolution.docx''
        ''Board Resolution''
        \<lparr>paragraphs = [''Resolved and signed.''], headings = [],
         full_text = Some ''Resolved and signed.''\<rparr>
        [[]] True
        (generate_ai_suggestions_for_file (Inr ([''Ref A''], ''prompt''))
           (\<lambda>p. Inr (''[{'' @ [CHR 0x22] @ ''issue'' @ [CHR 0x22] @ '': 5}]''))
           (\<lambda>s. if s = ''[{'' @ [CHR 0x22] @ ''issue'' @ [CHR 0x22] @ '': 5}]''
                then Inr (JList [JDict [(''issue'', JNum 5)]]) else Inl ValueError))
     = Inl AttributeError"
  by code_simp

section \<open>Suggestions that the document type does not accept\<close>

lemma inapplicable_suggestion_not_merged:
  assumes "str_or_empty (dict_get sug ''issue'') = Inr raw"
    and "\<not> doc_type_accepts_issue_key dt (normalize_issue_key (strip raw))"
  shows "merge_suggestion dt keys fs (JDict sug) = Inr fs"
  using assms by (simp add: Let_def)

text \<open>
  C1 at a concrete input: for a register of members and directors, the suggestion with
  the issue \<open>share capital\<close> is not accepted and leaves the findings as they are, and yet
  the annotation loop writes its comment on the document.
\<close>

theorem inapplicable_suggestion_still_annotated:
  "\<not> doc_type_accepts_issue_key ''Register of Members and Directors''
        (normalize_issue_key (strip ''share capital''))
   \<and> (case analyze_document (\<lambda>v. ''?'')
        (JDict [(''clauses_per_doc'', JDict [])]) ''register.docx''
        ''Register of Members and Directors''
        \<lparr>paragraphs = [''Register of members''], headings = [],
         full_text = Some ''Register of members''\<rparr>
        [[]] True
        (Inr (JList [JDict [(''issue'', JStr ''share capital''),
                            (''rationale'', JStr ''Not stated.''),
                            (''suggestion'', JStr ''State the share capital.''),
                            (''citation_label'', JStr ''Ref A'')]]))
      of Inl e \<Rightarrow> False
       | Inr (file_issues, st) \<Rightarrow>
           file_issues = []
           \<and> calls st = [(0, ''AI Suggestion: State the share capital. | Source: Ref A'', ''YELLOW'')]
           \<and> reviewed st =
               [[comment_run ''AI Suggestion: State the share capital. | Source: Ref A'' ''YELLOW'']])"
  by code_simp

section \<open>Matching a suggestion against the findings\<close>

lemma py_getitem_nat: "n < length xs \<Longrightarrow> py_getitem xs (int n) = Inr (xs ! n)"
  by (simp add: py_getitem_def)

lemma py_getitem_past_end: "length xs \<le> n \<Longrightarrow> py_getitem xs (int n) = Inl IndexError"
  by (simp add: py_getitem_def)

lemma int_Suc_add: "int n + 1 = int (Suc n)"
  by simp

lemma match_loop_hit:
  assumes "i < length fs" and "n + i < length keys"
    and "keys_match k (keys ! (n + i))"
    and "\<forall>j<i. \<not> keys_match k (keys ! (n + j))"
  shows "match_loop keys k sug (int n) fs = Inr (fs[i := enrich (fs ! i) sug], True)"
  using assms
proof (induction fs arbitrary: n i)
  case Nil
  then show ?case by simp
next
  case (Cons f fs)
  have here: "py_getitem keys (int n) = Inr (keys ! n)"
    using Cons.prems(2) by (simp add: py_getitem_nat)
  show ?case
  proof (cases i)
    case 0
    then show ?thesis using Cons.prems(3) here by simp
  next
    case (Suc i')
    have no: "\<not> keys_match k (keys ! n)"
      using Cons.prems(4) Suc by force
    have later: "\<forall>j<i'. \<not> keys_match k (keys ! (Suc n + j))"
      using Cons.prems(4) Suc by (metis Suc_less_eq add_Suc_shift)
    have "match_loop keys k sug (int (Suc n)) fs = Inr (fs[i' := enrich (fs ! i') sug], True)"
      using Cons.prems Suc later by (intro Cons.IH) simp_all
    then show ?thesis
      using here no Suc by (simp add: int_Suc_add del: of_nat_Suc)
  qed
qed

lemma match_loop_miss:
  assumes "n + length fs \<le> length keys"
    and "\<forall>j<length fs. \<not> keys_match k (keys ! (n + j))"
  shows "match_loop keys k sug (int n) fs = Inr (fs, False)"
  using assms
proof (induction fs arbitrary: n)
  case Nil
  then show ?case by simp
next
  case (Cons f fs)
  have here: "py_getitem keys (int n) = Inr (keys ! n)"
    using Cons.prems(1) by (simp add: py_getitem_nat)
  have no: "\<not> keys_match k (keys ! n)"
    using Cons.prems(2) by force
  have later: "\<forall>j<length fs. \<not> keys_match k (keys ! (Suc n + j))"
    using Cons.prems(2) by (metis Suc_less_eq add_Suc_shift length_Cons)
  have "match_loop keys k sug (int (Suc n)) fs = Inr (fs, False)"
    using Cons.prems later by (intro Cons.IH) simp_all
  then show ?case
    using here no by (simp add: int_Suc_add del: of_nat_Suc)
qed

lemma match_loop_overrun:
  assumes "n \<le> length keys" and "length keys < n + length fs"
    and "\<forall>j. n + j < length keys \<longrightarrow> \<not> keys_match k (keys ! (n + j))"
  shows "match_loop keys k sug (int n) fs = Inl IndexError"
  using assms
proof (induction fs arbitrary: n)
  case Nil
  then show ?case by simp
next
  case (Cons f fs)
  show ?case
  proof (cases "n < length keys")
    case False
    then have "py_getitem keys (int n) = Inl IndexError"
      by (simp add: py_getitem_past_end)
    then show ?thesis by simp
  next
    case True
    have here: "py_getitem keys (int n) = Inr (keys ! n)"
      using True by (simp add: py_getitem_nat)
    have no: "\<not> keys_match k (keys ! n)"
      using Cons.prems(3) [rule_format, of 0] True by simp
    have later: "\<forall>j. Suc n + j < length keys \<longrightarrow> \<not> keys_match k (keys ! (Suc n + j))"
      using Cons.prems(3) by (metis add_Suc_shift)
    have "match_loop keys k sug (int (Suc n)) fs = Inl IndexError"
      using Cons.prems True later by (intro Cons.IH) simp_all
    then show ?thesis
      using here no by (simp add: int_Suc_add del: of_nat_Suc)
  qed
qed


text \<open>
  C5, as the specification states it, fails: a finding whose normalized key is empty is
  contained in every key, so it stands in the relation with the key of the suggestion,
  but the code skips it. With the finding for the required clause \<open>***\<close> and a suggestion
  about jurisdiction, the finding is not enriched and the suggestion is appended instead.
\<close>

theorem empty_key_never_matches:
  "doc_type_accepts_issue_key ''Board Resolution''
      (normalize_issue_key (strip ''Jurisdiction clause''))
   \<and> normalize_issue_key (strip ''Jurisdiction clause'') \<noteq> []
   \<and> symmetric_substring (normalize_issue_key (strip ''Jurisdiction clause''))
        (normalize_issue_key (issue (clause_finding ''Board Resolution'' ''***'')))
   \<and> merge_ai_suggestions ''Board Resolution'' [clause_finding ''Board Resolution'' ''***'']
        (JList [JDict [(''issue'', JStr ''Jurisdiction clause''), (''rationale'', JStr ''r''),
                       (''suggestion'', JStr ''s''), (''citation_label'', JStr ''Ref A'')]])
      = ([clause_finding ''Board Resolution'' ''***'',
          \<lparr>document = ''Board Resolution'', section_name = ''N/A'', issue = ''Jurisdiction clause'',
           severity = ''Medium'', suggestion = [], suggestion_ai = Some (JStr ''s''),
           rationale_ai = Some (JStr ''r''), citation_label = Some (JStr ''Ref A'')\<rparr>], None)"
  by code_simp

text \<open>
  The list \<open>issue_keys_current\<close> is computed once, before the loop. Once a suggestion has
  been appended, the next accepted suggestion that matches none of the original
  findings reads past the end of that list: \<open>IndexError\<close> leaves \<open>analyze_files\<close>.
\<close>

lemma second_unmatched_suggestion_raises:
  "merge_ai_suggestions ''Board Resolution'' []
      (JList [JDict [(''issue'', JStr ''Jurisdiction clause''), (''rationale'', JStr ''r''),
                     (''suggestion'', JStr ''s''), (''citation_label'', JStr ''Ref A'')],
              JDict [(''issue'', JStr ''ADGM wording''), (''rationale'', JStr ''r''),
                     (''suggestion'', JStr ''s''), (''citation_label'', JStr ''Ref A'')]])
     = ([\<lparr>document = ''Board Resolution'', section_name = ''N/A'', issue = ''Jurisdiction clause'',
           severity = ''Medium'', suggestion = [], suggestion_ai = Some (JStr ''s''),
           rationale_ai = Some (JStr ''r''), citation_label = Some (JStr ''Ref A'')\<rparr>],
        Some IndexError)"
  by code_simp

text \<open>
  C5, amended: let the list of keys be that of the first \<open>n\<close> findings, those present
  before the merge. For a suggestion that the document type accepts, the first of these
  findings whose key is not empty and contains, or is contained in, the key of the
  suggestion receives the three advisory fields, and nothing else changes; when none of
  them matches and nothing has been appended so far, the suggestion is appended as a new
  finding with severity Medium and an empty suggestion field. The suggestion is a
  dictionary whose issue is a string, or is missing or false and then counts as empty.
\<close>

theorem merge_suggestion_first_match:
  assumes "str_or_empty (dict_get sug ''issue'') = Inr raw"
    and "sug_issue_raw = strip raw"
    and "sug_key = normalize_issue_key sug_issue_raw"
    and "doc_type_accepts_issue_key doc_type sug_key"
    and "n \<le> length file_issues"
    and "issue_keys_current = map (\<lambda>f. normalize_issue_key (issue f)) (take n file_issues)"
  shows "(i < n \<and> keys_match sug_key (normalize_issue_key (issue (file_issues ! i)))
          \<and> (\<forall>j<i. \<not> keys_match sug_key (normalize_issue_key (issue (file_issues ! j)))) \<longrightarrow>
            merge_suggestion doc_type issue_keys_current file_issues (JDict sug) =
              Inr (file_issues[i := enrich (file_issues ! i) sug]))
     \<and> (n = length file_issues
          \<and> (\<forall>j<n. \<not> keys_match sug_key (normalize_issue_key (issue (file_issues ! j)))) \<longrightarrow>
            merge_suggestion doc_type issue_keys_current file_issues (JDict sug) =
              Inr (file_issues @ [standalone_finding doc_type sug_issue_raw sug]))
     \<and> severity (standalone_finding doc_type sug_issue_raw sug) = ''Medium''
     \<and> suggestion (standalone_finding doc_type sug_issue_raw sug) = []
     \<and> enrich f sug =
         f\<lparr>suggestion_ai := Some (get_or (dict_get sug ''suggestion'') (JStr [])),
           rationale_ai := Some (get_or (dict_get sug ''rationale'') (JStr [])),
           citation_label := Some (get_or (dict_get sug ''citation_label'') (JStr []))\<rparr>
     \<and> (keys_match sug_key issue_key \<longleftrightarrow>
          sug_key \<noteq> [] \<and> issue_key \<noteq> [] \<and> symmetric_substring sug_key issue_key)"
proof (intro conjI impI)
  assume h: "i < n \<and> keys_match sug_key (normalize_issue_key (issue (file_issues ! i)))
          \<and> (\<forall>j<i. \<not> keys_match sug_key (normalize_issue_key (issue (file_issues ! j))))"
  have len: "length issue_keys_current = n"
    using assms(5,6) by simp
  have key: "\<And>j. j < n \<Longrightarrow> issue_keys_current ! j = normalize_issue_key (issue (file_issues ! j))"
    using assms(5,6) by simp
  have "match_loop issue_keys_current sug_key sug (int 0) file_issues =
      Inr (file_issues[i := enrich (file_issues ! i) sug], True)"
  proof (rule match_loop_hit)
    show "i < length file_issues" using h assms(5) by simp
    show "0 + i < length issue_keys_current" using h len by simp
    show "keys_match sug_key (issue_keys_current ! (0 + i))" using h key by simp
    show "\<forall>j<i. \<not> keys_match sug_key (issue_keys_current ! (0 + j))" using h key by simp
  qed
  then show "merge_suggestion doc_type issue_keys_current file_issues (JDict sug) =
      Inr (file_issues[i := enrich (file_issues ! i) sug])"
    using assms(1,2,3,4) by (simp add: Let_def)
next
  assume h: "n = length file_issues
      \<and> (\<forall>j<n. \<not> keys_match sug_key (normalize_issue_key (issue (file_issues ! j))))"
  have len: "length issue_keys_current = n"
    using assms(5,6) by simp
  have key: "\<And>j. j < n \<Longrightarrow> issue_keys_current ! j = normalize_issue_key (issue (file_issues ! j))"
    using assms(5,6) by simp
  have "match_loop issue_keys_current sug_key sug (int 0) file_issues = Inr (file_issues, False)"
  proof (rule match_loop_miss)
    show "0 + length file_issues \<le> length issue_keys_current" using h len by simp
    show "\<forall>j<length file_issues. \<not> keys_match sug_key (issue_keys_current ! (0 + j))"
      using h key by simp
  qed
  then show "merge_suggestion doc_type issue_keys_current file_issues (JDict sug) =
      Inr (file_issues @ [standalone_finding doc_type sug_issue_raw sug])"
    using assms(1,2,3,4) by (simp add: Let_def)
qed (simp_all add: standalone_finding_def enrich_def keys_match_def symmetric_substring_def)

theorem merge_suggestion_first_match_witness:
  "merge_suggestion ''Board Resolution''
      (map (\<lambda>f. normalize_issue_key (issue f))
         (take 2 [clause_finding ''Board Resolution'' ''Quorum'',
                  clause_finding ''Board Resolution'' ''Jurisdiction'']))
      [clause_finding ''Board Resolution'' ''Quorum'',
       clause_finding ''Board Resolution'' ''Jurisdiction'']
      (JDict [(''issue'', JStr ''Jurisdiction clause missing''), (''rationale'', JStr ''r''),
              (''suggestion'', JStr ''s''), (''citation_label'', JStr ''Ref A'')])
    = Inr [clause_finding ''Board Resolution'' ''Quorum'',
           enrich (clause_finding ''Board Resolution'' ''Jurisdiction'')
             [(''issue'', JStr ''Jurisdiction clause missing''), (''rationale'', JStr ''r''),
              (''suggestion'', JStr ''s''), (''citation_label'', JStr ''Ref A'')]]
   \<and> merge_suggestion ''Board Resolution''
      (map (\<lambda>f. normalize_issue_key (issue f))
         (take 2 [clause_finding ''Board Resolution'' ''Quorum'',
                  clause_finding ''Board Resolution'' ''Jurisdiction'']))
      [clause_finding ''Board Resolution'' ''Quorum'',
       clause_finding ''Board Resolution'' ''Jurisdiction'']
      (JDict [(''issue'', JStr ''ADGM reference''), (''rationale'', JStr ''r''),
              (''suggestion'', JStr ''s''), (''citation_label'', JStr ''Ref A'')])
    = Inr [clause_finding ''Board Resolution'' ''Quorum'',
           clause_finding ''Board Resolution'' ''Jurisdiction'',
           standalone_finding ''Board Resolution'' (strip ''ADGM reference'')
             [(''issue'', JStr ''ADGM reference''), (''rationale'', JStr ''r''),
              (''suggestion'', JStr ''s''), (''citation_label'', JStr ''Ref A'')]]"
proof -
  let ?q = "clause_finding ''Board Resolution'' ''Quorum''"
  let ?j = "clause_finding ''Board Resolution'' ''Jurisdiction''"
  let ?s1 = "[(''issue'', JStr ''Jurisdiction clause missing''), (''rationale'', JStr ''r''),
              (''suggestion'', JStr ''s''), (''citation_label'', JStr ''Ref A'')]"
  let ?s2 = "[(''issue'', JStr ''ADGM reference''), (''rationale'', JStr ''r''),
              (''suggestion'', JStr ''s''), (''citation_label'', JStr ''Ref A'')]"
  let ?k1 = "normalize_issue_key (strip ''Jurisdiction clause missing'')"
  let ?k2 = "normalize_issue_key (strip ''ADGM reference'')"
  have raw1: "str_or_empty (dict_get ?s1 ''issue'') = Inr ''Jurisdiction clause missing''"
    by (simp add: dict_get_def)
  have raw2: "str_or_empty (dict_get ?s2 ''issue'') = Inr ''ADGM reference''"
    by (simp add: dict_get_def)
  have acc1: "doc_type_accepts_issue_key ''Board Resolution'' ?k1"
    by code_simp
  have acc2: "doc_type_accepts_issue_key ''Board Resolution'' ?k2"
    by code_simp
  have le: "2 \<le> length [?q, ?j]"
    by simp
  have q1: "\<not> keys_match ?k1 (normalize_issue_key (issue ?q))"
    by code_simp
  have j1: "keys_match ?k1 (normalize_issue_key (issue ?j))"
    by code_simp
  have q2: "\<not> keys_match ?k2 (normalize_issue_key (issue ?q))"
    by code_simp
  have j2: "\<not> keys_match ?k2 (normalize_issue_key (issue ?j))"
    by code_simp
  have hit: "(1::nat) < 2 \<and> keys_match ?k1 (normalize_issue_key (issue ([?q, ?j] ! 1)))
      \<and> (\<forall>i<1. \<not> keys_match ?k1 (normalize_issue_key (issue ([?q, ?j] ! i))))"
    using q1 j1 by simp
  have miss: "2 = length [?q, ?j]
      \<and> (\<forall>i<2. \<not> keys_match ?k2 (normalize_issue_key (issue ([?q, ?j] ! i))))"
  proof (intro conjI allI impI)
    fix i :: nat
    assume "i < 2"
    then consider "i = 0" | "i = 1" by linarith
    then show "\<not> keys_match ?k2 (normalize_issue_key (issue ([?q, ?j] ! i)))"
      using q2 j2 by cases simp_all
  qed simp
  have 1: "merge_suggestion ''Board Resolution''
      (map (\<lambda>f. normalize_issue_key (issue f)) (take 2 [?q, ?j])) [?q, ?j] (JDict ?s1)
      = Inr ([?q, ?j][1 := enrich ([?q, ?j] ! 1) ?s1])"
    using merge_suggestion_first_match [OF raw1 refl refl acc1 le refl, where i = 1, THEN conjunct1]
      hit by (rule mp)
  have 2: "merge_suggestion ''Board Resolution''
      (map (\<lambda>f. normalize_issue_key (issue f)) (take 2 [?q, ?j])) [?q, ?j] (JDict ?s2)
      = Inr ([?q, ?j] @ [standalone_finding ''Board Resolution'' (strip ''ADGM reference'') ?s2])"
    using merge_suggestion_first_match [OF raw2 refl refl acc2 le refl, THEN conjunct2, THEN conjunct1]
      miss by (rule mp)
  have u: "[?q, ?j][1 := enrich ([?q, ?j] ! 1) ?s1] = [?q, enrich ?j ?s1]"
    by simp
  have v: "[?q, ?j] @ [standalone_finding ''Board Resolution'' (strip ''ADGM reference'') ?s2]
      = [?q, ?j, standalone_finding ''Board Resolution'' (strip ''ADGM reference'') ?s2]"
    by simp
  show ?thesis
    using 1 2 unfolding u v by (intro conjI)
qed

section \<open>Regular expression matching\<close>

lemma star_cls_suffix: "r \<in> set (star_cls p s) \<Longrightarrow> suffix r s"
  by (induction s) (auto simp: suffix_Cons split: if_splits)

lemma matches_suffix: "r' \<in> set (matches r s) \<Longrightarrow> suffix r' s"
proof (induction r arbitrary: s r')
  case (Seq a b)
  then obtain m where "m \<in> set (matches a s)" and "r' \<in> set (matches b m)"
    by auto
  then have "suffix m s" and "suffix r' m"
    using Seq.IH by blast+
  then show ?case
    using suffix_order.trans by blast
qed (auto simp: suffix_Cons star_cls_suffix split: list.splits if_splits)

lemma star_cls_hd: "star_cls p s \<noteq> [] \<and> hd (star_cls p s) = dropWhile p s"
  by (induction s) auto

lemma re_match_Cls: "re_match (Cls p) (c # cs) = (if p c then Some cs else None)"
  by (simp add: re_match_def)

lemma re_match_Plus: "re_match (Plus p) (c # cs) = (if p c then Some (dropWhile p cs) else None)"
proof (cases "p c")
  case True
  obtain x xs where "star_cls p cs = x # xs"
    using star_cls_hd [of p cs] by (cases "star_cls p cs") auto
  moreover from this have "x = dropWhile p cs"
    using star_cls_hd [of p cs] by simp
  ultimately show ?thesis
    using True by (simp add: re_match_def Plus_def)
next
  case False
  then show ?thesis by (simp add: re_match_def Plus_def)
qed

lemma re_sub_Cls:
  "re_sub (Cls p) rep s = concat (map (\<lambda>c. if p c then rep else [c]) s)"
  by (induction s) (simp_all add: re_match_Cls)

lemma re_sub_Plus_Cons:
  "re_sub (Plus p) rep (c # cs) =
     (if p c then rep @ re_sub (Plus p) rep (dropWhile p cs) else c # re_sub (Plus p) rep cs)"
proof -
  have "length (dropWhile p cs) < Suc (length cs)"
    using length_dropWhile_le [of p cs] by simp
  then show ?thesis
    by (simp add: re_match_Plus)
qed




lemma consuming_shorter:
  "consuming r \<Longrightarrow> r' \<in> set (matches r s) \<Longrightarrow> length r' < length s"
proof (induction r arbitrary: s r')
  case (Seq a b)
  from Seq.prems(2) obtain m where m: "m \<in> set (matches a s)" and r': "r' \<in> set (matches b m)"
    by auto
  have le1: "length m \<le> length s"
    using m matches_suffix suffix_length_le by blast
  have le2: "length r' \<le> length m"
    using r' matches_suffix suffix_length_le by blast
  from Seq.prems(1) have "consuming a \<or> consuming b" by simp
  then show ?case
  proof
    assume "consuming a"
    then have "length m < length s" using m by (rule Seq.IH(1))
    then show ?thesis using le2 by simp
  next
    assume "consuming b"
    then have "length r' < length m" using r' by (rule Seq.IH(2))
    then show ?thesis using le1 by simp
  qed
qed (auto split: list.splits if_splits)

lemma consuming_Lit: "consuming (Lit (c # cs))"
  by simp

lemma patterns_consuming:
  "consuming prefix_pattern \<and> list_all consuming (map fst replacements)
   \<and> consuming (Cls not_key_char) \<and> consuming (Plus is_space)"
  by (simp add: prefix_pattern_def replacements_def Plus_def)

lemma re_sub_consuming:
  assumes "consuming r"
  shows "re_sub r rep (c # cs) =
     (case re_match r (c # cs) of
        None \<Rightarrow> c # re_sub r rep cs
      | Some rest \<Rightarrow> rep @ re_sub r rep rest)"
proof (cases "re_match r (c # cs)")
  case None
  then show ?thesis by simp
next
  case (Some rest)
  then have "rest \<in> set (matches r (c # cs))"
    by (auto simp: re_match_def split: list.splits)
  then have "length rest < length (c # cs)"
    using assms consuming_shorter by blast
  then show ?thesis
    using Some by simp
qed

section \<open>The shape of a normalized key\<close>

lemma is_space_blank: "is_space CHR '' ''"
  by (simp add: is_space_def ascii_whitespace_def)

lemma key_char_iff: "key_char c \<longleftrightarrow> c \<in> set (ascii_lower @ ascii_digits @ '' '')"
  by (auto simp: key_char_def)

lemma key_chars_lower: "list_all (\<lambda>c. lower_char c = c) (ascii_lower @ ascii_digits @ '' '')"
  by code_simp

lemma key_chars_space:
  "list_all (\<lambda>c. is_space c \<longleftrightarrow> c = CHR '' '') (ascii_lower @ ascii_digits @ '' '')"
  by code_simp

lemma key_char_lower: "key_char c \<Longrightarrow> lower_char c = c"
  using key_chars_lower unfolding key_char_iff list_all_iff by blast

lemma key_char_space: "key_char c \<Longrightarrow> is_space c \<longleftrightarrow> c = CHR '' ''"
  using key_chars_space unfolding key_char_iff list_all_iff by blast

lemma key_char_kept: "key_char c \<Longrightarrow> \<not> not_key_char c"
  using is_space_blank by (auto simp: key_char_def not_key_char_def)

lemma kept_key_char: "\<not> not_key_char c \<Longrightarrow> \<not> is_space c \<Longrightarrow> key_char c"
  by (auto simp: key_char_def not_key_char_def)

lemma colon_no_key_char: "\<not> key_char CHR '':''"
  by code_simp


lemma single_spaced_Cons:
  "single_spaced (a # s) \<longleftrightarrow>
     (s \<noteq> [] \<longrightarrow> \<not> (a = CHR '' '' \<and> hd s = CHR '' '')) \<and> single_spaced s"
  by (cases s) auto

lemma single_spaced_append: "single_spaced (a @ b) \<Longrightarrow> single_spaced a \<and> single_spaced b"
proof (induction a)
  case Nil
  then show ?case by simp
next
  case (Cons x a)
  then show ?case
    by (cases a) (auto simp: single_spaced_Cons)
qed

subsection \<open>\<open>strip\<close>\<close>

lemma strip_decompose: "\<exists>a b. s = a @ strip s @ b"
proof -
  let ?t = "dropWhile is_space s"
  have "s = takeWhile is_space s @ ?t"
    by simp
  moreover have "rev ?t = takeWhile is_space (rev ?t) @ dropWhile is_space (rev ?t)"
    by simp
  then have "?t = rev (dropWhile is_space (rev ?t)) @ rev (takeWhile is_space (rev ?t))"
    by (metis rev_append rev_rev_ident)
  ultimately have "s = takeWhile is_space s @ strip s @ rev (takeWhile is_space (rev ?t))"
    by (simp add: strip_def)
  then show ?thesis by blast
qed

lemma set_strip: "set (strip s) \<subseteq> set s"
  using strip_decompose [of s] by (metis Un_upper1 Un_upper2 set_append subset_trans)

lemma single_spaced_strip: "single_spaced s \<Longrightarrow> single_spaced (strip s)"
  using strip_decompose [of s] by (metis single_spaced_append)

lemma last_dropWhile: "dropWhile P xs \<noteq> [] \<Longrightarrow> last (dropWhile P xs) = last xs"
  by (metis last_appendR takeWhile_dropWhile_id)

lemma trimmed_strip: "trimmed (strip s)"
proof (cases "strip s = []")
  case True
  then show ?thesis by (simp add: trimmed_def)
next
  case False
  let ?t = "dropWhile is_space s"
  let ?u = "dropWhile is_space (rev ?t)"
  have u: "?u \<noteq> []" using False by (simp add: strip_def)
  then have t: "?t \<noteq> []" by (metis dropWhile.simps(1) rev.simps(1))
  have "last (strip s) = hd ?u"
    using u by (simp add: strip_def last_rev)
  then have 1: "\<not> is_space (last (strip s))"
    using hd_dropWhile [OF u] by simp
  have "hd (strip s) = last ?u"
    using u by (simp add: strip_def hd_rev)
  also have "\<dots> = last (rev ?t)"
    using u by (rule last_dropWhile)
  also have "\<dots> = hd ?t"
    using t by (simp add: last_rev)
  finally have 2: "\<not> is_space (hd (strip s))"
    using hd_dropWhile [OF t] by simp
  show ?thesis
    using 1 2 by (simp add: trimmed_def)
qed

lemma strip_trimmed: "trimmed k \<Longrightarrow> strip k = k"
proof (cases "k = []")
  case True
  then show ?thesis by (simp add: strip_def)
next
  case False
  assume "trimmed k"
  then have h: "\<not> is_space (hd k)" and l: "\<not> is_space (last k)"
    using False by (simp_all add: trimmed_def)
  have 1: "dropWhile is_space k = k"
    using h False by (simp add: dropWhile_eq_self_iff)
  have "hd (rev k) = last k"
    using False by (simp add: hd_rev)
  then have 2: "dropWhile is_space (rev k) = rev k"
    using l by (simp add: dropWhile_eq_self_iff)
  show ?thesis
    by (simp add: strip_def 1 2)
qed


subsection \<open>Collapsing white space\<close>

lemma collapse_chars:
  "c \<in> set (re_sub (Plus is_space) '' '' s) \<Longrightarrow> c = CHR '' '' \<or> (c \<in> set s \<and> \<not> is_space c)"
proof (induction "length s" arbitrary: s rule: less_induct)
  case less
  show ?case
  proof (cases s)
    case Nil
    then show ?thesis using less.prems by simp
  next
    case (Cons x xs)
    show ?thesis
    proof (cases "is_space x")
      case True
      have "length (dropWhile is_space xs) < length s"
        using Cons length_dropWhile_le [of is_space xs] by simp
      then have "c \<in> set (re_sub (Plus is_space) '' '' (dropWhile is_space xs)) \<Longrightarrow>
          c = CHR '' '' \<or> (c \<in> set (dropWhile is_space xs) \<and> \<not> is_space c)"
        by (rule less.hyps)
      then show ?thesis
        using less.prems Cons True by (auto simp: re_sub_Plus_Cons simp del: re_sub.simps dest: set_dropWhileD)
    next
      case False
      have "c \<in> set (re_sub (Plus is_space) '' '' xs) \<Longrightarrow>
          c = CHR '' '' \<or> (c \<in> set xs \<and> \<not> is_space c)"
        using Cons by (intro less.hyps) simp
      then show ?thesis
        using less.prems Cons False by (auto simp: re_sub_Plus_Cons simp del: re_sub.simps)
    qed
  qed
qed

lemma collapse_hd:
  "s \<noteq> [] \<Longrightarrow> re_sub (Plus is_space) '' '' s \<noteq> []
     \<and> hd (re_sub (Plus is_space) '' '' s) = (if is_space (hd s) then CHR '' '' else hd s)"
  by (cases s) (simp_all add: re_sub_Plus_Cons del: re_sub.simps)

lemma collapse_single_spaced: "single_spaced (re_sub (Plus is_space) '' '' s)"
proof (induction "length s" arbitrary: s rule: less_induct)
  case less
  show ?case
  proof (cases s)
    case Nil
    then show ?thesis by simp
  next
    case (Cons x xs)
    show ?thesis
    proof (cases "is_space x")
      case True
      let ?r = "dropWhile is_space xs"
      have "length ?r < length s"
        using Cons length_dropWhile_le [of is_space xs] by simp
      then have ih: "single_spaced (re_sub (Plus is_space) '' '' ?r)"
        by (rule less.hyps)
      have "re_sub (Plus is_space) '' '' ?r \<noteq> [] \<longrightarrow> hd (re_sub (Plus is_space) '' '' ?r) \<noteq> CHR '' ''"
      proof
        assume "re_sub (Plus is_space) '' '' ?r \<noteq> []"
        then have r: "?r \<noteq> []" by (metis re_sub.simps(1))
        then have "\<not> is_space (hd ?r)" by (rule hd_dropWhile)
        then show "hd (re_sub (Plus is_space) '' '' ?r) \<noteq> CHR '' ''"
          using collapse_hd [OF r] is_space_blank by auto
      qed
      then show ?thesis
        using Cons True ih by (simp add: re_sub_Plus_Cons single_spaced_Cons del: re_sub.simps)
    next
      case False
      have "single_spaced (re_sub (Plus is_space) '' '' xs)"
        using Cons by (intro less.hyps) simp
      moreover have "x \<noteq> CHR '' ''"
        using False is_space_blank by auto
      ultimately show ?thesis
        using Cons False by (simp add: re_sub_Plus_Cons single_spaced_Cons del: re_sub.simps)
    qed
  qed
qed

lemma collapse_key_form:
  "list_all key_char k \<Longrightarrow> single_spaced k \<Longrightarrow> re_sub (Plus is_space) '' '' k = k"
proof (induction k)
  case Nil
  then show ?case by simp
next
  case (Cons c k)
  have ih: "re_sub (Plus is_space) '' '' k = k"
    using Cons by (simp add: single_spaced_Cons)
  show ?case
  proof (cases "c = CHR '' ''")
    case True
    have "k = [] \<or> \<not> is_space (hd k)"
    proof (cases k)
      case Nil
      then show ?thesis by simp
    next
      case (Cons d k')
      then have "d \<noteq> CHR '' ''" and "key_char d"
        using True Cons.prems by simp_all
      then show ?thesis
        using Cons by (simp add: key_char_space)
    qed
    then have "dropWhile is_space k = k"
      by (simp add: dropWhile_eq_self_iff)
    then show ?thesis
      using True ih is_space_blank by (simp add: re_sub_Plus_Cons del: re_sub.simps)
  next
    case False
    then have "\<not> is_space c"
      using Cons.prems by (simp add: key_char_space)
    then show ?thesis
      using ih by (simp add: re_sub_Plus_Cons del: re_sub.simps)
  qed
qed

lemma clean_chars:
  "c \<in> set (re_sub (Cls not_key_char) '' '' s) \<Longrightarrow> c = CHR '' '' \<or> \<not> not_key_char c"
  by (auto simp: re_sub_Cls simp del: re_sub.simps split: if_splits)

lemma clean_key_form: "list_all key_char k \<Longrightarrow> re_sub (Cls not_key_char) '' '' k = k"
  by (induction k) (simp_all add: re_sub_Cls key_char_kept del: re_sub.simps)

lemma key_form_cleanup: "key_form (cleanup t)"
proof -
  let ?c = "re_sub (Plus is_space) '' '' (re_sub (Cls not_key_char) '' '' t)"
  have chars: "key_char c" if "c \<in> set ?c" for c
  proof -
    from that have "c = CHR '' '' \<or> (c \<in> set (re_sub (Cls not_key_char) '' '' t) \<and> \<not> is_space c)"
      by (rule collapse_chars)
    then show ?thesis
    proof
      assume "c = CHR '' ''"
      then show ?thesis by (simp add: key_char_def)
    next
      assume h: "c \<in> set (re_sub (Cls not_key_char) '' '' t) \<and> \<not> is_space c"
      then have "c = CHR '' '' \<or> \<not> not_key_char c"
        using clean_chars by blast
      then show ?thesis
        using h is_space_blank kept_key_char by blast
    qed
  qed
  have "list_all key_char (strip ?c)"
    using chars set_strip [of ?c] by (auto simp: list_all_iff)
  moreover have "single_spaced (strip ?c)"
    by (intro single_spaced_strip collapse_single_spaced)
  moreover have "trimmed (strip ?c)"
    by (rule trimmed_strip)
  ultimately show ?thesis
    by (simp add: key_form_def cleanup_def)
qed

lemma cleanup_key_form: "key_form k \<Longrightarrow> cleanup k = k"
  by (simp add: key_form_def cleanup_def clean_key_form collapse_key_form strip_trimmed)

lemma lower_key_form: "key_form k \<Longrightarrow> lower k = k"
  by (simp add: key_form_def lower_def list_all_iff key_char_lower map_idI)

lemma prefix_pattern_needs_colon:
  assumes "re_match prefix_pattern s = Some r"
  shows "CHR '':'' \<in> set s"
proof -
  let ?head = "Alt (Lit ''missing required clause'') (Lit ''red flag'')"
  from assms have "matches prefix_pattern s \<noteq> []"
    by (auto simp: re_match_def)
  then obtain r1 r2 where r1: "r1 \<in> set (matches ?head s)"
    and r2: "r2 \<in> set (star_cls is_space r1)"
    and colon: "matches (Seq (Chr CHR '':'') (Star is_space)) r2 \<noteq> []"
    unfolding prefix_pattern_def by (fastforce simp: neq_Nil_conv)
  from colon have "CHR '':'' \<in> set r2"
    by (cases r2) (auto split: if_splits)
  moreover have "suffix r2 s"
    using r1 r2 matches_suffix star_cls_suffix suffix_order.trans by blast
  ultimately show ?thesis
    using set_mono_suffix by blast
qed

lemma prefix_key_form: "key_form k \<Longrightarrow> re_sub_bol prefix_pattern [] k = k"
proof -
  assume k: "key_form k"
  have "re_match prefix_pattern k = None"
  proof (cases "re_match prefix_pattern k")
    case (Some r)
    then have "CHR '':'' \<in> set k" by (rule prefix_pattern_needs_colon)
    then show ?thesis
      using k colon_no_key_char by (auto simp: key_form_def list_all_iff)
  qed simp
  then show ?thesis by (simp add: re_sub_bol_def)
qed

lemma normalize_key_form:
  assumes "key_form k"
  shows "normalize_issue_key k = cleanup (apply_replacements k)"
proof -
  have "strip (lower k) = k"
    using assms by (simp add: lower_key_form strip_trimmed key_form_def)
  then show ?thesis
    using assms by (simp add: normalize_issue_key_def Let_def prefix_key_form)
qed

lemma key_form_normalize: "key_form (normalize_issue_key x)"
  by (simp add: normalize_issue_key_def Let_def key_form_cleanup)


text \<open>
  C2, as the specification states it, fails: the phrase rules run before punctuation is
  replaced by blanks, so a phrase that only appears once the hyphen is gone is collapsed
  by the second pass and not by the first.
\<close>

theorem normalize_issue_key_not_idempotent:
  "normalize_issue_key ''Abu-Dhabi Global Market'' = ''abu dhabi global market''
   \<and> normalize_issue_key ''abu dhabi global market'' = ''adgm''
   \<and> normalize_issue_key (normalize_issue_key ''Abu-Dhabi Global Market'')
       \<noteq> normalize_issue_key ''Abu-Dhabi Global Market''"
  by code_simp

text \<open>
  C2, amended: \<open>normalize_issue_key\<close> is a total function of its input, the empty
  string has the empty key, and normalizing a key again returns the same key whenever
  the phrase rules leave that key as it is.
\<close>

theorem normalize_issue_key_idempotent_on_settled_keys:
  "normalize_issue_key [] = []
   \<and> (apply_replacements (normalize_issue_key x) = normalize_issue_key x \<longrightarrow>
        normalize_issue_key (normalize_issue_key x) = normalize_issue_key x)"
proof (intro conjI impI)
  show "normalize_issue_key [] = []"
    by code_simp
next
  assume settled: "apply_replacements (normalize_issue_key x) = normalize_issue_key x"
  have shape: "key_form (normalize_issue_key x)"
    by (rule key_form_normalize)
  then have "normalize_issue_key (normalize_issue_key x) =
      cleanup (apply_replacements (normalize_issue_key x))"
    by (rule normalize_key_form)
  also have "\<dots> = cleanup (normalize_issue_key x)"
    by (simp only: settled)
  also have "\<dots> = normalize_issue_key x"
    using shape by (rule cleanup_key_form)
  finally show "normalize_issue_key (normalize_issue_key x) = normalize_issue_key x" .
qed

theorem normalize_issue_key_idempotent_on_settled_keys_witness:
  "apply_replacements (normalize_issue_key ''Missing required clause: Signatories'')
     = normalize_issue_key ''Missing required clause: Signatories''
   \<and> normalize_issue_key (normalize_issue_key ''Missing required clause: Signatories'')
     = normalize_issue_key ''Missing required clause: Signatories''"
proof -
  have settled: "apply_replacements (normalize_issue_key ''Missing required clause: Signatories'')
     = normalize_issue_key ''Missing required clause: Signatories''"
    by code_simp
  have "normalize_issue_key (normalize_issue_key ''Missing required clause: Signatories'')
     = normalize_issue_key ''Missing required clause: Signatories''"
    using normalize_issue_key_idempotent_on_settled_keys
      [where x = "''Missing required clause: Signatories''", THEN conjunct2] settled
    by (rule mp)
  then show ?thesis
    using settled by (intro conjI)
qed

end
